theory Spec2Isabelle
  imports Complex_Main "HOL-Library.Word"
begin

section \<open>Strings and character classes\<close>

text \<open>
  A JavaScript string is a sequence of UTF-16 code units. The character classes are the
  ones the regular expressions of the program use without the \<open>u\<close> flag: \<open>\d\<close> is
  \<open>[0-9]\<close>, \<open>\w\<close> (behind \<open>\b\<close>) is \<open>[A-Za-z0-9_]\<close>, and \<open>\s\<close> is the
  WhiteSpace and LineTerminator code points, the set that \<open>String.prototype.trim\<close>
  strips as well.
\<close>

type_synonym cu = "16 word"

type_synonym jstring = "cu list"

definition str :: "string \<Rightarrow> jstring" where
  "str cs = map of_char cs"

definition is_digit :: "cu \<Rightarrow> bool" where
  "is_digit c \<longleftrightarrow> 0x30 \<le> c \<and> c \<le> 0x39"

definition is_word :: "cu \<Rightarrow> bool" where
  "is_word c \<longleftrightarrow> (0x61 \<le> c \<and> c \<le> 0x7A) \<or> (0x41 \<le> c \<and> c \<le> 0x5A) \<or> is_digit c \<or> c = 0x5F"

definition is_space :: "cu \<Rightarrow> bool" where
  "is_space c \<longleftrightarrow>
     (0x09 \<le> c \<and> c \<le> 0x0D) \<or> c = 0x20 \<or> c = 0xA0 \<or> c = 0x1680 \<or>
     (0x2000 \<le> c \<and> c \<le> 0x200A) \<or> c = 0x2028 \<or> c = 0x2029 \<or> c = 0x202F \<or>
     c = 0x205F \<or> c = 0x3000 \<or> c = 0xFEFF"

text \<open>
  Canonicalize of the \<open>i\<close> flag. Every pattern character of the program is ASCII; a code
  unit of 128 or more never canonicalizes to an ASCII one, so on those the model leaves
  it alone.
\<close>

definition canonicalize :: "bool \<Rightarrow> cu \<Rightarrow> cu" where
  "canonicalize ic c = (if ic \<and> 0x61 \<le> c \<and> c \<le> 0x7A then c - 0x20 else c)"

definition js_trim :: "jstring \<Rightarrow> jstring" where
  "js_trim s = rev (dropWhile is_space (rev (dropWhile is_space s)))"

fun js_join :: "jstring \<Rightarrow> jstring list \<Rightarrow> jstring" where
  "js_join sep [] = []"
| "js_join sep [w] = w"
| "js_join sep (w # ws) = w @ sep @ js_join sep ws"

section \<open>Regular expressions\<close>

text \<open>
  The fragment of the pattern language that the literals of the program use, and the
  backtracking matcher: \<open>ends ic r s i\<close> lists the end positions of the matches of
  \<open>r\<close> in \<open>s\<close> that start at \<open>i\<close>, in the order in which the engine tries them, so
  its head is the match the engine reports. \<open>ic\<close> is the \<open>i\<close> flag. A greedy star or
  option rejects an iteration that consumes nothing, as RepeatMatcher does. The test
  \<open>j \<le> length s\<close> in the star never fails (\<open>ends_bounds\<close> below); it is there for
  the termination proof.
\<close>

datatype regex =
    Eps
  | Lit cu
  | Digit
  | Space
  | WordB
  | Bol
  | Seq regex regex
  | Alt regex regex
  | Star regex
  | Opt regex

function (sequential) ends :: "bool \<Rightarrow> regex \<Rightarrow> jstring \<Rightarrow> nat \<Rightarrow> nat list" where
  "ends ic Eps s i = [i]"
| "ends ic (Lit p) s i =
     (if i < length s \<and> canonicalize ic (s ! i) = canonicalize ic p then [Suc i] else [])"
| "ends ic Digit s i = (if i < length s \<and> is_digit (s ! i) then [Suc i] else [])"
| "ends ic Space s i = (if i < length s \<and> is_space (s ! i) then [Suc i] else [])"
| "ends ic WordB s i =
     (if (0 < i \<and> i - 1 < length s \<and> is_word (s ! (i - 1))) \<noteq> (i < length s \<and> is_word (s ! i))
      then [i] else [])"
| "ends ic Bol s i = (if i = 0 then [i] else [])"
| "ends ic (Seq a b) s i = concat (map (ends ic b s) (ends ic a s i))"
| "ends ic (Alt a b) s i = ends ic a s i @ ends ic b s i"
| "ends ic (Star a) s i =
     concat (map (\<lambda>j. if i < j \<and> j \<le> length s then ends ic (Star a) s j else []) (ends ic a s i)) @ [i]"
| "ends ic (Opt a) s i = filter (\<lambda>j. i < j) (ends ic a s i) @ [i]"
  by pat_completeness auto
termination
  by (relation "measures [\<lambda>(ic, r, s, i). size r, \<lambda>(ic, r, s, i). length s - i]") auto

declare ends.simps(9) [simp del]

text \<open>
  \<open>r+\<close>, a sequence of pattern characters, and \<open>r1|...|rn\<close> for a list that is not
  empty.
\<close>

definition Plus :: "regex \<Rightarrow> regex" where
  "Plus r = Seq r (Star r)"

definition lits :: "string \<Rightarrow> regex" where
  "lits cs = foldr (\<lambda>c r. Seq (Lit (of_char c)) r) cs Eps"

definition alts :: "regex list \<Rightarrow> regex" where
  "alts rs = foldr Alt (butlast rs) (last rs)"

text \<open>The match attempt at one position (a sticky exec), and exec from \<open>lastIndex\<close> on.\<close>

definition match_at :: "bool \<Rightarrow> regex \<Rightarrow> jstring \<Rightarrow> nat \<Rightarrow> nat option" where
  "match_at ic r s i = (case ends ic r s i of [] \<Rightarrow> None | e # _ \<Rightarrow> Some e)"

definition regex_exec :: "bool \<Rightarrow> regex \<Rightarrow> jstring \<Rightarrow> nat \<Rightarrow> (nat \<times> nat) option" where
  "regex_exec ic r s i =
     (case List.find (\<lambda>k. match_at ic r s k \<noteq> None) [i..<Suc (length s)] of
        None \<Rightarrow> None
      | Some k \<Rightarrow> (case match_at ic r s k of None \<Rightarrow> None | Some e \<Rightarrow> Some (k, e)))"

definition regex_test :: "bool \<Rightarrow> regex \<Rightarrow> jstring \<Rightarrow> bool" where
  "regex_test ic r s \<longleftrightarrow> regex_exec ic r s 0 \<noteq> None"

section \<open>Bounds of a match\<close>

lemma ends_bounds: "j \<in> set (ends ic r s i) \<Longrightarrow> i \<le> length s \<Longrightarrow> i \<le> j \<and> j \<le> length s"
proof (induction ic r s i arbitrary: j rule: ends.induct)
  case (7 ic a b s i)
  then obtain k where k: "k \<in> set (ends ic a s i)" and j: "j \<in> set (ends ic b s k)"
    by auto
  from "7.IH"(1)[OF k "7.prems"(2)] have ik: "i \<le> k" "k \<le> length s" by simp_all
  from "7.IH"(2)[OF k j ik(2)] ik show ?case by simp
next
  case (9 ic a s i)
  from "9.prems"(1)
  have "j = i \<or> (\<exists>k\<in>set (ends ic a s i). i < k \<and> k \<le> length s \<and> j \<in> set (ends ic (Star a) s k))"
    by (subst (asm) ends.simps(9)) (auto split: if_splits)
  then show ?case
  proof
    assume "j = i"
    with "9.prems" show ?thesis by simp
  next
    assume "\<exists>k\<in>set (ends ic a s i). i < k \<and> k \<le> length s \<and> j \<in> set (ends ic (Star a) s k)"
    then obtain k where k: "k \<in> set (ends ic a s i)" and ik: "i < k" "k \<le> length s"
      and j: "j \<in> set (ends ic (Star a) s k)"
      by blast
    have "i < k \<and> k \<le> length s" using ik by simp
    from "9.IH"(2)[OF k this j ik(2)] ik show ?thesis by simp
  qed
qed (auto split: if_splits)

lemma match_at_bounds: "match_at ic r s i = Some e \<Longrightarrow> i \<le> length s \<Longrightarrow> i \<le> e \<and> e \<le> length s"
  using ends_bounds[of e ic r s i] by (auto simp: match_at_def split: list.splits)

lemma find_Some_set: "List.find P xs = Some x \<Longrightarrow> x \<in> set xs \<and> P x"
  by (induction xs) (auto split: if_splits)

lemma regex_exec_bounds:
  assumes "regex_exec ic r s i = Some (k, e)"
  shows "i \<le> k \<and> k \<le> e \<and> e \<le> length s"
proof -
  from assms obtain k' where f: "List.find (\<lambda>k. match_at ic r s k \<noteq> None) [i..<Suc (length s)] = Some k'"
    and m: "match_at ic r s k' = Some e" and kk: "k' = k"
    by (auto simp: regex_exec_def split: option.splits)
  from find_Some_set[OF f] have "k' \<in> set [i..<Suc (length s)]" ..
  then have "i \<le> k'" "k' \<le> length s" by auto
  with match_at_bounds[OF m] kk show ?thesis by simp
qed

section \<open>replace and split\<close>

text \<open>
  \<open>String.prototype.replace\<close> with a pattern that has the \<open>g\<close> flag and a replacement
  string without \<open>$\<close>: exec is repeated from \<open>lastIndex\<close> (\<open>li\<close>), which steps over an
  empty match, and the pieces between the matches are copied from \<open>nsp\<close>
  (nextSourcePosition) on.
\<close>

function replace_loop :: "bool \<Rightarrow> regex \<Rightarrow> jstring \<Rightarrow> jstring \<Rightarrow> nat \<Rightarrow> nat \<Rightarrow> jstring" where
  "replace_loop ic r rep s nsp li =
     (case regex_exec ic r s li of
        None \<Rightarrow> drop nsp s
      | Some (k, e) \<Rightarrow>
          take (k - nsp) (drop nsp s) @ rep @
          replace_loop ic r rep s e (if e = k then e + 1 else e))"
  by pat_completeness auto
termination
proof (relation "measure (\<lambda>(ic, r, rep, s, nsp, li). Suc (length s) - li)", goal_cases)
  case 1
  show ?case by simp
next
  case (2 ic r rep s nsp li x2 k e)
  then have "regex_exec ic r s li = Some (k, e)" by simp
  from regex_exec_bounds[OF this] show ?case by auto
qed

definition replace_all :: "bool \<Rightarrow> regex \<Rightarrow> jstring \<Rightarrow> jstring \<Rightarrow> jstring" where
  "replace_all ic r rep s = replace_loop ic r rep s 0 0"

definition replace_first :: "bool \<Rightarrow> regex \<Rightarrow> jstring \<Rightarrow> jstring \<Rightarrow> jstring" where
  "replace_first ic r rep s =
     (case regex_exec ic r s 0 of None \<Rightarrow> s | Some (k, e) \<Rightarrow> take k s @ rep @ drop e s)"

text \<open>
  \<open>String.prototype.split\<close> with a pattern without capture groups and no limit: \<open>p\<close> is
  the start of the piece being collected, \<open>q\<close> the position where the separator is tried.
\<close>

function split_loop :: "bool \<Rightarrow> regex \<Rightarrow> jstring \<Rightarrow> nat \<Rightarrow> nat \<Rightarrow> jstring list" where
  "split_loop ic r s p q =
     (if q < length s then
        (case match_at ic r s q of
           None \<Rightarrow> split_loop ic r s p (q + 1)
         | Some e0 \<Rightarrow>
             (let e = min e0 (length s) in
              if e = p then split_loop ic r s p (q + 1)
              else take (q - p) (drop p s) # split_loop ic r s e e))
      else [drop p s])"
  by pat_completeness auto
termination
proof (relation "measures [\<lambda>(ic, r, s, p, q). length s - q, \<lambda>(ic, r, s, p, q). if p = q then 0 else 1]",
    goal_cases)
  case 1
  show ?case by simp
next
  case (2 ic r s p q)
  then have "length s - Suc q < length s - q" by arith
  then show ?case by simp
next
  case (3 ic r s p q e0 e)
  then have "length s - Suc q < length s - q" by arith
  then show ?case by simp
next
  case (4 ic r s p q e0 e)
  from match_at_bounds[of ic r s q e0] 4(1,2) have "q \<le> e0" by simp
  with 4(1,3) have qe: "q \<le> e" "e \<le> length s" by simp_all
  show ?case
  proof (cases "q = e")
    case True
    with 4(4) have "p \<noteq> q" by simp
    with True show ?thesis by simp
  next
    case False
    with qe 4(1) have "length s - e < length s - q" by arith
    then show ?thesis by simp
  qed
qed

definition js_split :: "bool \<Rightarrow> regex \<Rightarrow> jstring \<Rightarrow> jstring list" where
  "js_split ic r s =
     (if s = [] then (if match_at ic r s 0 \<noteq> None then [] else [s])
      else split_loop ic r s 0 0)"

declare split_loop.simps [simp del] replace_loop.simps [simp del]

section \<open>The placeholder redaction\<close>

text \<open>
  \<open>createRedactedVersion\<close> of \<open>gdg_parser.js\<close> and of the sketch. A keyword
  pattern is \<open>/\b(?:w1|w2|...)\b/i\<close>; the last pattern, without the \<open>i\<close> flag, is
  \<open>/\b(?:\d+(?:,\d{3})*(?:\.\d+)?)\b/\<close>. Each pattern goes with its \<open>i\<close> flag.
\<close>

definition kw :: "string list \<Rightarrow> bool \<times> regex" where
  "kw ws = (True, Seq WordB (Seq (alts (map lits ws)) WordB))"

definition number_pattern :: "bool \<times> regex" where
  "number_pattern =
     (False,
      Seq WordB
        (Seq (Seq (Plus Digit)
                (Seq (Star (Seq (Lit 0x2C) (Seq Digit (Seq Digit Digit))))
                     (Opt (Seq (Lit 0x2E) (Plus Digit)))))
           WordB))"

definition sensitivePatterns :: "(bool \<times> regex) list" where
  "sensitivePatterns =
     [kw [''classified'', ''confidential'', ''secret''],
      kw [''casualties'', ''deaths'', ''injured'', ''wounded''],
      kw [''corruption'', ''fraud'', ''misconduct'', ''violation''],
      kw [''investigation'', ''probe'', ''inquiry''],
      kw [''failure'', ''mistake'', ''error'', ''incident''],
      kw [''protest'', ''unrest'', ''riot'', ''demonstration''],
      kw [''intelligence'', ''surveillance'', ''operation''],
      kw [''weapon'', ''military'', ''defense'', ''police'', ''security''],
      kw [''government'', ''official'', ''authority''],
      kw [''city'', ''town'', ''village'', ''district'', ''region''],
      number_pattern]"

definition sensitive :: "jstring \<Rightarrow> bool" where
  "sensitive word \<longleftrightarrow> list_ex (\<lambda>(ic, pattern). regex_test ic pattern word) sensitivePatterns"

definition redact_word :: "jstring \<Rightarrow> jstring" where
  "redact_word word = (if sensitive word then str ''[REDACTED]'' else word)"

definition redact_words :: "jstring \<Rightarrow> jstring" where
  "redact_words text = js_join (str '' '') (map redact_word (js_split False (Plus Space) text))"

definition createRedactedVersion :: "jstring \<Rightarrow> jstring" where
  "createRedactedVersion text = (if text = [] then [] else redact_words text)"

definition createRedactedVersion_sketch :: "jstring \<Rightarrow> jstring" where
  "createRedactedVersion_sketch text =
     (if text = [] then str ''Information redacted'' else redact_words text)"

section \<open>The paraphrase redaction\<close>

text \<open>
  \<open>createRedactedVersion\<close> of the second copy of the class: global replacements, first
  \<open>/\b\d+(\.\d+)?%\b/g\<close>, then \<open>/\b\d+\b/g\<close>, then one pattern
  \<open>/\bname\b/gi\<close> for each location and each strong word, in the order of the lists.
\<close>

definition word_pattern :: "string \<Rightarrow> regex" where
  "word_pattern w = Seq WordB (Seq (lits w) WordB)"

definition percent_pattern :: regex where
  "percent_pattern =
     Seq WordB (Seq (Plus Digit) (Seq (Opt (Seq (Lit 0x2E) (Plus Digit))) (Seq (Lit 0x25) WordB)))"

definition digits_pattern :: regex where
  "digits_pattern = Seq WordB (Seq (Plus Digit) WordB)"

definition locations :: "string list" where
  "locations = [''Afghanistan'', ''Iraq'', ''Syria'', ''Yemen'', ''Libya'', ''Ukraine'', ''Russia'', ''China'']"

definition wordReplacements :: "(string \<times> string) list" where
  "wordReplacements =
     [(''crisis'', ''situation''),
      (''disaster'', ''event''),
      (''catastrophic'', ''significant''),
      (''failed'', ''did not meet expectations''),
      (''corruption'', ''irregularities''),
      (''violated'', ''may not have followed''),
      (''illegal'', ''questionable''),
      (''dangerous'', ''concerning'')]"

definition createRedactedVersion_paraphrase :: "jstring \<Rightarrow> jstring" where
  "createRedactedVersion_paraphrase text =
     (let redacted = replace_all False percent_pattern (str ''a percentage'') text;
          redacted = replace_all False digits_pattern (str ''several'') redacted;
          redacted = foldl (\<lambda>redacted location.
                        replace_all True (word_pattern location) (str ''the region'') redacted)
                      redacted locations;
          redacted = foldl (\<lambda>redacted (strong, weak).
                        replace_all True (word_pattern strong) (str weak) redacted)
                      redacted wordReplacements
      in redacted)"

section \<open>Values, entries and the parser state\<close>

text \<open>
  The values a parsed JSON document holds, with \<open>undefined\<close> for what reading a
  missing property gives. A number is its (finite) value. An object is the list of its
  own properties; none of the property names the program reads
  (source, url, domain, title, description, content, articles, length) is inherited.
\<close>

datatype jv =
    JUndefined
  | JNull
  | JBool bool
  | JNum rat
  | JStr jstring
  | JArr "jv list"
  | JObj "(jstring \<times> jv) list"

datatype error = TypeError | Error jstring

fun truthy :: "jv \<Rightarrow> bool" where
  "truthy JUndefined = False"
| "truthy JNull = False"
| "truthy (JBool b) = b"
| "truthy (JNum x) = (x \<noteq> 0)"
| "truthy (JStr s) = (s \<noteq> [])"
| "truthy (JArr xs) = True"
| "truthy (JObj kvs) = True"

definition own_prop :: "(jstring \<times> jv) list \<Rightarrow> string \<Rightarrow> jv" where
  "own_prop kvs k = (case map_of kvs (str k) of None \<Rightarrow> JUndefined | Some v \<Rightarrow> v)"

text \<open>Reading a property: it throws on \<open>undefined\<close> and \<open>null\<close>.\<close>

fun get_prop :: "jv \<Rightarrow> string \<Rightarrow> error + jv" where
  "get_prop JUndefined k = Inl TypeError"
| "get_prop JNull k = Inl TypeError"
| "get_prop (JObj kvs) k = Inr (own_prop kvs k)"
| "get_prop (JStr s) k = Inr (if k = ''length'' then JNum (of_nat (length s)) else JUndefined)"
| "get_prop (JArr xs) k = Inr (if k = ''length'' then JNum (of_nat (length xs)) else JUndefined)"
| "get_prop (JBool b) k = Inr JUndefined"
| "get_prop (JNum x) k = Inr JUndefined"

record rss_item =
  item_title :: "jstring option"
  item_description :: "jstring option"
  item_link :: "jstring option"

text \<open>
  What the program takes from its platform and the source does not contain:
  \<open>url_hostname x\<close> is the hostname of \<open>new URL(x)\<close>, or \<open>None\<close> when the constructor
  throws; \<open>coerce_gt v n\<close> is \<open>v > n\<close> for a string, array or object \<open>v\<close>, which
  goes through ToPrimitive and ToNumber; \<open>dom_items raw\<close> is what DOMParser and
  \<open>getElementsByTagName('item')\<close> give for the raw feed, each item with the text of its
  first title, description and link child.
\<close>

record platform =
  url_hostname :: "jv \<Rightarrow> jstring option"
  coerce_gt :: "jv \<Rightarrow> nat \<Rightarrow> error + bool"
  dom_items :: "jv \<Rightarrow> error + rss_item list"

fun js_gt :: "platform \<Rightarrow> jv \<Rightarrow> nat \<Rightarrow> error + bool" where
  "js_gt pl (JNum x) n = Inr (of_nat n < x)"
| "js_gt pl JUndefined n = Inr False"
| "js_gt pl JNull n = Inr False"
| "js_gt pl (JBool b) n = Inr (b \<and> n < 1)"
| "js_gt pl v n = coerce_gt pl v n"

definition length_gt :: "platform \<Rightarrow> jv \<Rightarrow> nat \<Rightarrow> error + bool" where
  "length_gt pl v n = (case get_prop v ''length'' of Inl e \<Rightarrow> Inl e | Inr l \<Rightarrow> js_gt pl l n)"

text \<open>
  A change \<open>{from, to, type}\<close>, an entry \<open>{id, source, changes}\<close> and the fields of the
  parser object. A property that an object does not have is \<open>JUndefined\<close>; \<open>changes\<close> is
  \<open>None\<close> for an entry without a changes array.
\<close>

record change =
  ch_from :: jv
  ch_to :: jv
  ch_type :: jv

record entry =
  entry_id :: jv
  source :: jv
  changes :: "change list option"

record parser =
  processedEntries :: "entry list"
  maxEntries :: nat
  entryCount :: nat

definition new_GDGParser :: parser where
  "new_GDGParser = \<lparr>processedEntries = [], maxEntries = 100, entryCount = 0\<rparr>"

section \<open>addEntry\<close>

text \<open>
  addEntry is the same in both copies of the class, and the only function that writes
  \<open>processedEntries\<close>. The filter's predicate is
  \<open>ch.from && ch.from.trim().length > 0 && ch.to && ch.to.trim().length > 0\<close>: a truthy
  value that is not a string has no \<open>trim\<close> method, and the call throws.
\<close>

definition nonblank :: "jv \<Rightarrow> error + bool" where
  "nonblank v =
     (if \<not> truthy v then Inr False
      else case v of JStr s \<Rightarrow> Inr (0 < length (js_trim s)) | _ \<Rightarrow> Inl TypeError)"

definition keep_change :: "change \<Rightarrow> error + bool" where
  "keep_change ch =
     (case nonblank (ch_from ch) of
        Inl e \<Rightarrow> Inl e
      | Inr False \<Rightarrow> Inr False
      | Inr True \<Rightarrow> nonblank (ch_to ch))"

fun filter_changes :: "change list \<Rightarrow> error + change list" where
  "filter_changes [] = Inr []"
| "filter_changes (ch # chs) =
     (case keep_change ch of
        Inl e \<Rightarrow> Inl e
      | Inr b \<Rightarrow>
          (case filter_changes chs of
             Inl e \<Rightarrow> Inl e
           | Inr kept \<Rightarrow> Inr (if b then ch # kept else kept)))"

definition addEntry :: "parser \<Rightarrow> entry \<Rightarrow> error + parser" where
  "addEntry this entry =
     (if length (processedEntries this) < maxEntries this then
        (case changes entry of
           None \<Rightarrow> Inr this
         | Some chs \<Rightarrow>
             if 0 < length chs then
               (case filter_changes chs of
                  Inl e \<Rightarrow> Inl e
                | Inr kept \<Rightarrow>
                    if 0 < length kept
                    then Inr (this\<lparr>processedEntries :=
                                processedEntries this @ [entry\<lparr>changes := Some kept\<rparr>]\<rparr>)
                    else Inr this)
             else Inr this)
      else Inr this)"

section \<open>The article parser of gdg\_parser.js\<close>

text \<open>formatUrl and extractSource; the pattern of the replacement is \<open>/^www\./\<close>.\<close>

definition formatUrl :: "platform \<Rightarrow> jv \<Rightarrow> jv" where
  "formatUrl pl url =
     (case url_hostname pl url of
        Some hostname \<Rightarrow> JStr (replace_first False (Seq Bol (lits ''www.'')) [] hostname)
      | None \<Rightarrow> url)"

definition extractSource :: "platform \<Rightarrow> jv \<Rightarrow> error + jv" where
  "extractSource pl article =
     (case get_prop article ''source'' of
        Inl e \<Rightarrow> Inl e
      | Inr src \<Rightarrow>
          if truthy src then Inr src
          else (case get_prop article ''url'' of
                  Inl e \<Rightarrow> Inl e
                | Inr url \<Rightarrow>
                    if truthy url then Inr (formatUrl pl url)
                    else (case get_prop article ''domain'' of
                            Inl e \<Rightarrow> Inl e
                          | Inr domain \<Rightarrow>
                              if truthy domain then Inr domain
                              else Inr (JStr (str ''News Article'')))))"

text \<open>\<open>article[k] && article[k].length > 10\<close>, with the value of the field when it holds.\<close>

definition long_field :: "platform \<Rightarrow> jv \<Rightarrow> string \<Rightarrow> error + jv option" where
  "long_field pl article k =
     (case get_prop article k of
        Inl e \<Rightarrow> Inl e
      | Inr v \<Rightarrow>
          if truthy v
          then (case length_gt pl v 10 of
                  Inl e \<Rightarrow> Inl e
                | Inr b \<Rightarrow> Inr (if b then Some v else None))
          else Inr None)"

definition extractTextContent :: "platform \<Rightarrow> jv \<Rightarrow> error + jv" where
  "extractTextContent pl article =
     (case long_field pl article ''title'' of
        Inl e \<Rightarrow> Inl e
      | Inr (Some v) \<Rightarrow> Inr v
      | Inr None \<Rightarrow>
          (case long_field pl article ''description'' of
             Inl e \<Rightarrow> Inl e
           | Inr (Some v) \<Rightarrow> Inr v
           | Inr None \<Rightarrow>
               (case long_field pl article ''content'' of
                  Inl e \<Rightarrow> Inl e
                | Inr (Some v) \<Rightarrow> Inr v
                | Inr None \<Rightarrow> Inr JNull)))"

text \<open>
  One round of the loop body. The text that reaches createRedactedVersion is truthy; when
  it is not a string it has no \<open>split\<close> method and the call throws.
\<close>

definition process_article :: "platform \<Rightarrow> parser \<Rightarrow> jv \<Rightarrow> error + parser" where
  "process_article pl this article =
     (case extractSource pl article of
        Inl e \<Rightarrow> Inl e
      | Inr src \<Rightarrow>
          (case extractTextContent pl article of
             Inl e \<Rightarrow> Inl e
           | Inr originalText \<Rightarrow>
               if truthy originalText then
                 (case originalText of
                    JStr s \<Rightarrow>
                      addEntry this
                        \<lparr>entry_id = JUndefined, source = src,
                         changes = Some [\<lparr>ch_from = originalText,
                                          ch_to = JStr (createRedactedVersion s),
                                          ch_type = JStr (str ''text'')\<rparr>]\<rparr>
                  | _ \<Rightarrow> Inl TypeError)
               else Inr this))"

text \<open>
  The loop over \<open>data.articles\<close>. An exception leaves the loop with the entries pushed so
  far still in the parser, so the result is the parser and the exception, if any.
\<close>

fun parse_articles :: "platform \<Rightarrow> parser \<Rightarrow> jv list \<Rightarrow> parser \<times> error option" where
  "parse_articles pl this [] = (this, None)"
| "parse_articles pl this (article # rest) =
     (if length (processedEntries this) < maxEntries this then
        (case process_article pl this article of
           Inl e \<Rightarrow> (this, Some e)
         | Inr this' \<Rightarrow> parse_articles pl this' rest)
      else (this, None))"

text \<open>An entry of the sample data: its id, its source, and the from and to of its one change.\<close>

definition sample_entry :: "string \<Rightarrow> string \<Rightarrow> string \<Rightarrow> string \<Rightarrow> entry" where
  "sample_entry i s f t =
     \<lparr>entry_id = JStr (str i), source = JStr (str s),
      changes = Some [\<lparr>ch_from = JStr (str f), ch_to = JStr (str t), ch_type = JUndefined\<rparr>]\<rparr>"

definition getSampleData :: "entry list" where
  "getSampleData =
     [sample_entry ''GDG-2018-08-27-001'' ''White House Press Release''
        ''The administration acknowledges serious concerns about climate change impacts.''
        ''The administration is monitoring environmental conditions.'',
      sample_entry ''GDG-2018-08-27-002'' ''Department of Defense Memo''
        ''Military operations resulted in 24 civilian casualties in the region.''
        ''Military operations in the region are under review.'']"

text \<open>
  parseGDGData returns the \<open>entries\<close> of the object it returns, and the parser as the call
  leaves it.
\<close>

definition parseGDGData :: "platform \<Rightarrow> parser \<Rightarrow> jv \<Rightarrow> entry list \<times> parser" where
  "parseGDGData pl this data =
     (if \<not> truthy data then (getSampleData, this)
      else case get_prop data ''articles'' of
        Inl e \<Rightarrow> (getSampleData, this)
      | Inr articles \<Rightarrow>
          (case articles of
             JArr xs \<Rightarrow>
               (case parse_articles pl this xs of
                  (this', Some e) \<Rightarrow> (getSampleData, this')
                | (this', None) \<Rightarrow> (processedEntries this', this'))
           | _ \<Rightarrow> (getSampleData, this)))"

section \<open>The feed parser of the second copy of the class\<close>

text \<open>
  The model of \<open>parseGDGData\<close> of the second copy of the class \<open>GDGParser\<close>, which reads
  an RSS feed, and of the functions it calls.
\<close>

definition extractDomainFromUrl :: "platform \<Rightarrow> jstring \<Rightarrow> jstring" where
  "extractDomainFromUrl pl url =
     (case url_hostname pl (JStr url) of
        Some hostname \<Rightarrow> replace_first False (Seq Bol (lits ''www.'')) [] hostname
      | None \<Rightarrow> [])"

definition cleanText :: "jstring \<Rightarrow> jstring" where
  "cleanText text =
     (if text = [] then []
      else let cleaned = replace_all False (Lit 0x0A) [0x20] text;
               cleaned = js_trim (replace_all False (Plus Space) [0x20] cleaned)
           in if length cleaned < 10 then cleaned @ str '' [content redacted]'' else cleaned)"

definition generateOriginalText :: "jstring \<Rightarrow> jstring" where
  "generateOriginalText link = str ''Original text for '' @ link"

text \<open>The separator of the description, \<open>/\s*\-\s*|\s*:\s*/\<close>.\<close>

definition separator_pattern :: regex where
  "separator_pattern =
     Alt (Seq (Star Space) (Seq (Lit 0x2D) (Star Space)))
         (Seq (Star Space) (Seq (Lit 0x3A) (Star Space)))"

text \<open>\<open>x?.textContent || d\<close>: the default stands in for a missing element and for empty text.\<close>

definition text_or :: "jstring option \<Rightarrow> jstring \<Rightarrow> jstring" where
  "text_or x d = (case x of None \<Rightarrow> d | Some t \<Rightarrow> if t = [] then d else t)"

definition description_changes :: "jstring \<Rightarrow> change list" where
  "description_changes description =
     (if description \<noteq> [] then
        (let parts = js_split False separator_pattern description in
         if 2 \<le> length parts
         then [\<lparr>ch_from = JStr (cleanText (parts ! 0)),
                 ch_to = JStr (cleanText (js_join [0x20] (drop 1 parts))),
                 ch_type = JUndefined\<rparr>]
         else [])
      else [])"

definition synthetic_changes :: "jstring \<Rightarrow> change list" where
  "synthetic_changes link =
     (let originalText = generateOriginalText link;
          redactedText = createRedactedVersion_paraphrase originalText
      in [\<lparr>ch_from = JStr originalText, ch_to = JStr redactedText, ch_type = JUndefined\<rparr>])"

definition item_entry :: "platform \<Rightarrow> rss_item \<Rightarrow> entry" where
  "item_entry pl item =
     (let title = text_or (item_title item) (str ''Government Document'');
          description = text_or (item_description item) [];
          link = text_or (item_link item) [];
          domain = extractDomainFromUrl pl link;
          chs = description_changes description;
          chs = (if length chs = 0 \<and> link \<noteq> [] then chs @ synthetic_changes link else chs)
      in \<lparr>entry_id = JUndefined,
          source = JStr (if domain \<noteq> [] then domain else title),
          changes = Some chs\<rparr>)"

definition process_item :: "platform \<Rightarrow> parser \<Rightarrow> rss_item \<Rightarrow> error + parser" where
  "process_item pl this item =
     (let entry = item_entry pl item in
      case changes entry of
        Some chs \<Rightarrow> if 0 < length chs then addEntry this entry else Inr this
      | None \<Rightarrow> Inr this)"

fun parse_items :: "platform \<Rightarrow> parser \<Rightarrow> rss_item list \<Rightarrow> parser \<times> error option" where
  "parse_items pl this [] = (this, None)"
| "parse_items pl this (item # rest) =
     (if length (processedEntries this) < maxEntries this then
        (case process_item pl this item of
           Inl e \<Rightarrow> (this, Some e)
         | Inr this' \<Rightarrow> parse_items pl this' rest)
      else (this, None))"

definition getSampleData_rss :: "entry list" where
  "getSampleData_rss =
     [sample_entry ''GDG-2018-08-27-001'' ''White House Press Release''
        ''The administration acknowledges serious concerns about climate change impacts.''
        ''The administration is monitoring environmental conditions.'',
      sample_entry ''GDG-2018-08-27-002'' ''Department of Defense Memo''
        ''Military operations resulted in 24 civilian casualties in the region.''
        ''Military operations in the region are under review.'',
      sample_entry ''GDG-2018-08-27-003'' ''CDC Health Advisory''
        ''The outbreak has infected over 1,000 people across 12 states.''
        ''Health officials are monitoring cases of the illness.'',
      sample_entry ''GDG-2018-08-27-004'' ''EPA Environmental Assessment''
        ''Chemical levels in the water exceed federal safety standards by 300%.''
        ''Water quality testing continues in affected areas.'',
      sample_entry ''GDG-2018-08-27-005'' ''Department of Justice Statement''
        ''The investigation found evidence of systematic corruption at multiple levels.''
        ''The investigation is ongoing and no conclusions have been reached.'',
      sample_entry ''GDG-2018-08-27-006'' ''Federal Reserve Economic Outlook''
        ''Economic indicators suggest a significant recession is likely within 6 months.''
        ''Economic conditions are being closely monitored.'',
      sample_entry ''GDG-2018-08-27-007'' ''Department of Education Report''
        ''Test scores show a 15% decline in student performance nationwide.''
        ''Educational assessment methods are being evaluated.'',
      sample_entry ''GDG-2018-08-27-008'' ''FDA Drug Safety Communication''
        ''The medication has been linked to 37 deaths and over 200 severe adverse reactions.''
        (''The medication'' @ [CHR 0x27] @ ''s safety profile is under continued evaluation.''),
      sample_entry ''GDG-2018-08-27-009'' ''Department of Homeland Security Alert''
        ''Critical infrastructure vulnerabilities have been exploited by foreign actors.''
        ''Infrastructure security protocols are being updated.'',
      sample_entry ''GDG-2018-08-27-010'' ''Veterans Affairs Internal Memo''
        ''Wait times for critical care have increased to an average of 47 days.''
        ''Patient care scheduling procedures are being optimized.'']"

definition parseGDGData_rss :: "platform \<Rightarrow> parser \<Rightarrow> jv \<Rightarrow> entry list \<times> parser" where
  "parseGDGData_rss pl this rawData =
     (case dom_items pl rawData of
        Inl e \<Rightarrow> (getSampleData_rss, this)
      | Inr items \<Rightarrow>
          (case parse_items pl this items of
             (this', Some e) \<Rightarrow> (getSampleData_rss, this')
           | (this', None) \<Rightarrow>
               if length (processedEntries this') < 10 then (getSampleData_rss, this')
               else (processedEntries this', this')))"

section \<open>The HTTP route\<close>

text \<open>
  The route of the local server and the serverless handler. What the platform does is a
  parameter: the outcome of reading the file or of the fetch, and the functions that
  inflate and parse. A call that throws or a promise that rejects is \<open>Inl\<close> with the
  message of the Error, or \<open>None\<close> where the message is not used.

  The route sets no header and writes no body itself: it hands a value to \<open>res.json\<close>,
  after \<open>res.status(500)\<close> on failure. Its result is therefore the status it leaves on
  \<open>res\<close> (200 when it sets none) and the value it hands to \<open>res.json\<close>, which sends
  the JSON text of that value; the headers are the framework's and are not modelled. The
  handler returns its response object, whose body is \<open>JSON.stringify(v)\<close>: \<open>body\<close> is
  that \<open>v\<close>.
\<close>

record sent =
  res_status :: nat
  res_json :: jv

record response =
  statusCode :: nat
  headers :: "(string \<times> string) list"
  body :: jv

record fetch_response =
  ok :: bool
  status :: nat
  statusText :: jstring
  arrayBuffer :: "jstring + 8 word list"

definition gdelt_route :: "(jstring + jstring) \<Rightarrow> (jstring \<Rightarrow> jstring + jv) \<Rightarrow> sent" where
  "gdelt_route readFile json_parse =
     (let failure = (\<lambda>message.
            \<lparr>res_status = 500,
             res_json = JObj [(str ''error'', JStr (str ''Failed to load data'')),
                              (str ''details'', JStr message)]\<rparr>)
      in case readFile of
           Inl message \<Rightarrow> failure message
         | Inr data \<Rightarrow>
             (case json_parse data of
                Inl message \<Rightarrow> failure message
              | Inr parsedData \<Rightarrow> \<lparr>res_status = 200, res_json = parsedData\<rparr>))"

fun digits :: "nat \<Rightarrow> jstring" where
  "digits n = (if n < 10 then [of_nat (48 + n)] else digits (n div 10) @ [of_nat (48 + n mod 10)])"

declare digits.simps [simp del]

definition handler ::
  "(jstring + fetch_response) \<Rightarrow> (8 word list \<Rightarrow> jstring option) \<Rightarrow> (jstring \<Rightarrow> jv option) \<Rightarrow> response"
where
  "handler fetched inflate json_parse =
     (let failure = (\<lambda>message.
            \<lparr>statusCode = 500,
             headers = [(''Content-Type'', ''application/json''),
                        (''Access-Control-Allow-Origin'', ''*'')],
             body = JObj [(str ''error'', JStr message)]\<rparr>)
      in case fetched of
           Inl message \<Rightarrow> failure message
         | Inr response \<Rightarrow>
             if \<not> ok response
             then failure (str ''Failed to fetch GDELT data: '' @ digits (status response) @
                           str '' '' @ statusText response)
             else (case arrayBuffer response of
                     Inl message \<Rightarrow> failure message
                   | Inr compressed \<Rightarrow>
                       (case inflate compressed of
                          None \<Rightarrow> failure (str ''Failed to decompress GDELT data'')
                        | Some decompressed \<Rightarrow>
                            (case json_parse decompressed of
                               None \<Rightarrow> failure (str ''Failed to parse GDELT data'')
                             | Some data \<Rightarrow>
                                 \<lparr>statusCode = 200,
                                  headers = [(''Content-Type'', ''application/json''),
                                             (''Access-Control-Allow-Origin'', ''*''),
                                             (''Access-Control-Allow-Headers'', ''Content-Type''),
                                             (''Access-Control-Allow-Methods'', ''GET'')],
                                  body = data\<rparr>))))"

section \<open>Specification-level notions\<close>

text \<open>
  The notions in which the properties below are stated. None of them is used by the model
  of the program above.
\<close>

text \<open>
  What "split on whitespace runs" means, without a pattern: a token ends at the next
  whitespace code unit, and the whole run of whitespace after it is the separator. A
  string that starts or ends with whitespace has an empty first or last token.
\<close>

function ws_tokens :: "jstring \<Rightarrow> jstring list" where
  "ws_tokens s =
     (case dropWhile (\<lambda>c. \<not> is_space c) s of
        [] \<Rightarrow> [s]
      | _ # _ \<Rightarrow>
          takeWhile (\<lambda>c. \<not> is_space c) s #
          ws_tokens (dropWhile is_space (dropWhile (\<lambda>c. \<not> is_space c) s)))"
  by pat_completeness auto
termination
proof (relation "measure length", goal_cases)
  case 1
  show ?case by simp
next
  case (2 s c cs)
  have "is_space c" using 2 hd_dropWhile[of "\<lambda>c. \<not> is_space c" s] by auto
  then have "length (dropWhile is_space (c # cs)) \<le> length cs"
    by (simp add: length_dropWhile_le)
  moreover have "length (c # cs) \<le> length s"
    using 2 length_dropWhile_le[of "\<lambda>c. \<not> is_space c" s] by simp
  ultimately show ?case using 2 by simp
qed

declare ws_tokens.simps [simp del]

text \<open>
  The redaction as the specification words it: the tokens between whitespace runs, each
  replaced by the placeholder when it matches a sensitive pattern and kept otherwise,
  joined with single spaces.
\<close>

definition tokenwise_redaction :: "jstring \<Rightarrow> jstring" where
  "tokenwise_redaction text =
     js_join [0x20] (map (\<lambda>token. if sensitive token then str ''[REDACTED]'' else token) (ws_tokens text))"

text \<open>A percent sign stands directly before a word character.\<close>

definition percent_before_word :: "jstring \<Rightarrow> bool" where
  "percent_before_word text \<longleftrightarrow> list_ex (\<lambda>(c, d). c = 0x25 \<and> is_word d) (zip text (tl text))"

text \<open>A token map that keeps tokens free of whitespace and non-empty tokens non-empty.\<close>

definition token_map :: "(jstring \<Rightarrow> jstring) \<Rightarrow> bool" where
  "token_map f \<longleftrightarrow>
     f [] = [] \<and> (\<forall>t. t \<noteq> [] \<longrightarrow> f t \<noteq> []) \<and>
     (\<forall>t. (\<forall>c\<in>set t. \<not> is_space c) \<longrightarrow> (\<forall>c\<in>set (f t). \<not> is_space c))"

text \<open>
  A change is valid when its from and to are strings that are not empty after trimming;
  an entry is valid when it has at least one change and all its changes are valid.
\<close>

definition nonblank_string :: "jv \<Rightarrow> bool" where
  "nonblank_string v = (case v of JStr s \<Rightarrow> js_trim s \<noteq> [] | _ \<Rightarrow> False)"

definition valid_change :: "change \<Rightarrow> bool" where
  "valid_change ch \<longleftrightarrow> nonblank_string (ch_from ch) \<and> nonblank_string (ch_to ch)"

definition valid_entry :: "entry \<Rightarrow> bool" where
  "valid_entry e = (case changes e of None \<Rightarrow> False | Some chs \<Rightarrow> chs \<noteq> [] \<and> list_all valid_change chs)"

definition the_changes :: "entry \<Rightarrow> change list" where
  "the_changes e = (case changes e of None \<Rightarrow> [] | Some chs \<Rightarrow> chs)"

definition string_or_falsy :: "jv \<Rightarrow> bool" where
  "string_or_falsy v = (case v of JStr s \<Rightarrow> True | _ \<Rightarrow> \<not> truthy v)"

text \<open>
  The entry that the article parser stores for an article, if any: the article has a source
  and a text, and the change from the text to its redaction is valid.
\<close>

definition article_entry :: "platform \<Rightarrow> jv \<Rightarrow> entry option" where
  "article_entry pl article =
     (case extractSource pl article of
        Inl e \<Rightarrow> None
      | Inr src \<Rightarrow>
          (case extractTextContent pl article of
             Inr (JStr s) \<Rightarrow>
               (let ch = \<lparr>ch_from = JStr s, ch_to = JStr (createRedactedVersion s),
                          ch_type = JStr (str ''text'')\<rparr>
                in if valid_change ch
                   then Some \<lparr>entry_id = JUndefined, source = src, changes = Some [ch]\<rparr>
                   else None)
           | _ \<Rightarrow> None))"

text \<open>The parser after entries are stored as far as there is room for them.\<close>

definition push :: "parser \<Rightarrow> entry list \<Rightarrow> parser" where
  "push this es =
     this\<lparr>processedEntries :=
       processedEntries this @ take (maxEntries this - length (processedEntries this)) es\<rparr>"

text \<open>The entry that the feed parser stores for an item, if any: one with a valid change.\<close>

definition item_stored :: "platform \<Rightarrow> rss_item \<Rightarrow> entry option" where
  "item_stored pl item =
     (let e = item_entry pl item; kept = filter valid_change (the_changes e)
      in if kept \<noteq> [] then Some (e\<lparr>changes := Some kept\<rparr>) else None)"

text \<open>A hostname without a leading "www.".\<close>

definition strip_www :: "jstring \<Rightarrow> jstring" where
  "strip_www h = (if take 4 h = str ''www.'' then drop 4 h else h)"

text \<open>
  The normalized shape of an entry: a string source, and an array of changes with string
  from and to. An article has string fields when its source, url and domain are strings or
  falsy.
\<close>

definition is_string :: "jv \<Rightarrow> bool" where
  "is_string v = (case v of JStr s \<Rightarrow> True | _ \<Rightarrow> False)"

definition conforms :: "entry \<Rightarrow> bool" where
  "conforms e \<longleftrightarrow>
     is_string (source e) \<and>
     (case changes e of
        None \<Rightarrow> False
      | Some chs \<Rightarrow> list_all (\<lambda>ch. is_string (ch_from ch) \<and> is_string (ch_to ch)) chs)"

definition string_fields :: "jv \<Rightarrow> bool" where
  "string_fields article \<longleftrightarrow>
     list_all (\<lambda>k. case get_prop article k of Inl e \<Rightarrow> True | Inr v \<Rightarrow> string_or_falsy v)
       [''source'', ''url'', ''domain'']"


text \<open>The elements of \<open>data.articles\<close>, when that is an array.\<close>

definition articles_of :: "jv \<Rightarrow> jv list" where
  "articles_of data = (case get_prop data ''articles'' of Inr (JArr xs) \<Rightarrow> xs | _ \<Rightarrow> [])"

text \<open>
  A JSON object with a string error field. What a failure is: for the route, status 500
  and such an object handed to \<open>res.json\<close>; for the handler, status 500, the content
  type it sets, and such an object as the body. What a success with the data \<open>v\<close> is:
  status 200 and \<open>v\<close>, for the handler with the content type it sets.
\<close>

definition error_body :: "jv \<Rightarrow> bool" where
  "error_body v = (case v of JObj kvs \<Rightarrow> is_string (own_prop kvs ''error'') | _ \<Rightarrow> False)"

definition error_sent :: "sent \<Rightarrow> bool" where
  "error_sent r \<longleftrightarrow> res_status r = 500 \<and> error_body (res_json r)"

definition data_sent :: "sent \<Rightarrow> jv \<Rightarrow> bool" where
  "data_sent r v \<longleftrightarrow> res_status r = 200 \<and> res_json r = v"

definition error_response :: "response \<Rightarrow> bool" where
  "error_response r \<longleftrightarrow>
     statusCode r = 500 \<and> map_of (headers r) ''Content-Type'' = Some ''application/json'' \<and>
     error_body (body r)"

definition data_response :: "response \<Rightarrow> jv \<Rightarrow> bool" where
  "data_response r v \<longleftrightarrow>
     statusCode r = 200 \<and> map_of (headers r) ''Content-Type'' = Some ''application/json'' \<and> body r = v"

text \<open>The data of a run in which every step succeeds.\<close>

definition file_data :: "(jstring + jstring) \<Rightarrow> (jstring \<Rightarrow> jstring + jv) \<Rightarrow> jv option" where
  "file_data readFile json_parse =
     (case readFile of
        Inl message \<Rightarrow> None
      | Inr data \<Rightarrow> (case json_parse data of Inl message \<Rightarrow> None | Inr v \<Rightarrow> Some v))"

definition fetched_data ::
  "(jstring + fetch_response) \<Rightarrow> (8 word list \<Rightarrow> jstring option) \<Rightarrow> (jstring \<Rightarrow> jv option) \<Rightarrow> jv option"
where
  "fetched_data fetched inflate json_parse =
     (case fetched of
        Inl message \<Rightarrow> None
      | Inr response \<Rightarrow>
          if ok response
          then (case arrayBuffer response of
                  Inl message \<Rightarrow> None
                | Inr compressed \<Rightarrow>
                    (case inflate compressed of
                       None \<Rightarrow> None
                     | Some decompressed \<Rightarrow> json_parse decompressed))
          else None)"

section \<open>Example inputs\<close>

text \<open>
  A platform whose URL constructor understands \<open>https://host/path\<close> and whose feed has
  one item; an article with string fields and one whose source is an object; an entry with
  a valid change, a blank one and one without a from; a parser that holds 100 entries.
\<close>

definition https_host :: "jv \<Rightarrow> jstring option" where
  "https_host v =
     (case v of
        JStr s \<Rightarrow>
          if take 8 s = str ''https://'' \<and> 8 < length s
          then Some (takeWhile (\<lambda>c. c \<noteq> 0x2F) (drop 8 s))
          else None
      | _ \<Rightarrow> None)"

definition example_item :: rss_item where
  "example_item =
     \<lparr>item_title = Some (str ''Budget report''),
      item_description = Some (str ''Spending: cut by 5 percent''),
      item_link = Some (str ''https://www.example.org/b'')\<rparr>"

definition example_platform :: platform where
  "example_platform =
     \<lparr>url_hostname = https_host, coerce_gt = (\<lambda>v n. Inr False),
      dom_items = (\<lambda>raw. Inr [example_item])\<rparr>"

definition example_article :: jv where
  "example_article =
     JObj [(str ''url'', JStr (str ''https://www.example.org/a'')),
           (str ''title'', JStr (str ''Police probe 12 deaths''))]"

definition untyped_article :: jv where
  "untyped_article =
     JObj [(str ''source'', JObj [(str ''name'', JStr (str ''CNN''))]),
           (str ''title'', JStr (str ''Police probe 12 deaths''))]"

definition example_entry :: entry where
  "example_entry =
     \<lparr>entry_id = JUndefined, source = JStr (str ''GDELT Project''),
      changes = Some
        [\<lparr>ch_from = JStr (str ''12 deaths''), ch_to = JStr (str ''several deaths''), ch_type = JUndefined\<rparr>,
         \<lparr>ch_from = JStr (str ''  ''), ch_to = JStr (str ''x''), ch_type = JUndefined\<rparr>,
         \<lparr>ch_from = JUndefined, ch_to = JStr (str ''y''), ch_type = JUndefined\<rparr>]\<rparr>"

definition example_data :: jv where
  "example_data = JObj [(str ''articles'', JArr [example_article])]"


definition untyped_data :: jv where
  "untyped_data = JObj [(str ''articles'', JArr [untyped_article])]"

text \<open>
  The feed with the one example item as text, the parser after that feed has been parsed
  ten times, and the entries that the example item and the two example articles give.
\<close>

definition example_feed :: jv where
  "example_feed =
     JStr (str (''<rss><channel><item><title>Budget report</title>'' @
                ''<description>Spending: cut by 5 percent</description>'' @
                ''<link>https://www.example.org/b</link></item></channel></rss>''))"

definition feed_again :: "parser \<Rightarrow> parser" where
  "feed_again this = snd (parseGDGData_rss example_platform this example_feed)"

definition ten_parser :: parser where
  "ten_parser = (feed_again ^^ 10) new_GDGParser"

definition example_stored :: entry where
  "example_stored =
     \<lparr>entry_id = JUndefined, source = JStr (str ''example.org''),
      changes = Some [\<lparr>ch_from = JStr (str ''Spending [content redacted]''),
                       ch_to = JStr (str ''cut by 5 percent''),
                       ch_type = JUndefined\<rparr>]\<rparr>"

definition untyped_stored :: entry where
  "untyped_stored =
     \<lparr>entry_id = JUndefined, source = JObj [(str ''name'', JStr (str ''CNN''))],
      changes = Some [\<lparr>ch_from = JStr (str ''Police probe 12 deaths''),
                       ch_to = JStr (str ''[REDACTED] [REDACTED] [REDACTED] [REDACTED]''),
                       ch_type = JStr (str ''text'')\<rparr>]\<rparr>"

definition article_stored :: entry where
  "article_stored =
     \<lparr>entry_id = JUndefined, source = JStr (str ''example.org''),
      changes = Some [\<lparr>ch_from = JStr (str ''Police probe 12 deaths''),
                       ch_to = JStr (str ''[REDACTED] [REDACTED] [REDACTED] [REDACTED]''),
                       ch_type = JStr (str ''text'')\<rparr>]\<rparr>"

section \<open>Splitting on whitespace runs\<close>

lemma ends_star_space:
  "i \<le> length s \<Longrightarrow> \<exists>es. ends ic (Star Space) s i = (i + length (takeWhile is_space (drop i s))) # es"
proof (induction "length s - i" arbitrary: i)
  case 0
  then have "i = length s" by simp
  then show ?case by (subst ends.simps(9)) simp
next
  case (Suc n)
  then have il: "i < length s" by simp
  then have d: "drop i s = s ! i # drop (Suc i) s" by (simp add: Cons_nth_drop_Suc)
  show ?case
  proof (cases "is_space (s ! i)")
    case True
    have "n = length s - Suc i" "Suc i \<le> length s" using Suc(2) il by arith+
    from Suc(1)[OF this] obtain es where
      "ends ic (Star Space) s (Suc i) = (Suc i + length (takeWhile is_space (drop (Suc i) s))) # es"
      by blast
    with True il d show ?thesis by (subst ends.simps(9)) simp
  next
    case False
    with il d show ?thesis by (subst ends.simps(9)) simp
  qed
qed

lemma match_at_plus_space:
  "match_at ic (Plus Space) s q =
     (if q < length s \<and> is_space (s ! q) then Some (q + length (takeWhile is_space (drop q s))) else None)"
proof (cases "q < length s \<and> is_space (s ! q)")
  case True
  then have d: "drop q s = s ! q # drop (Suc q) s" by (simp add: Cons_nth_drop_Suc)
  from True ends_star_space[of "Suc q" s ic] obtain es where
    "ends ic (Star Space) s (Suc q) = (Suc q + length (takeWhile is_space (drop (Suc q) s))) # es"
    by auto
  with True d show ?thesis by (simp add: match_at_def Plus_def)
next
  case False
  then show ?thesis by (auto simp: match_at_def Plus_def)
qed

lemma drop_split_nonspace:
  assumes "p \<le> q" "q \<le> length s" "\<forall>k. p \<le> k \<and> k < q \<longrightarrow> \<not> is_space (s ! k)"
  shows "drop p s = take (q - p) (drop p s) @ drop q s"
    and "\<forall>c\<in>set (take (q - p) (drop p s)). \<not> is_space c"
proof -
  have "q - p + p = q" using assms(1) by simp
  then have "drop (q - p) (drop p s) = drop q s" by simp
  then show "drop p s = take (q - p) (drop p s) @ drop q s"
    using append_take_drop_id[of "q - p" "drop p s"] by simp
  show "\<forall>c\<in>set (take (q - p) (drop p s)). \<not> is_space c"
  proof
    fix c assume "c \<in> set (take (q - p) (drop p s))"
    then obtain n where n: "n < length (take (q - p) (drop p s))" "c = take (q - p) (drop p s) ! n"
      by (auto simp: in_set_conv_nth)
    then have "n < q - p" "p + n < length s" using assms(1,2) by auto
    then have "c = s ! (p + n)" using n by simp
    moreover have "p \<le> p + n \<and> p + n < q" using \<open>n < q - p\<close> by arith
    ultimately show "\<not> is_space c" using assms(3) by blast
  qed
qed

lemma split_loop_ws_tokens:
  "p \<le> q \<Longrightarrow> q \<le> length s \<Longrightarrow> \<forall>k. p \<le> k \<and> k < q \<longrightarrow> \<not> is_space (s ! k) \<Longrightarrow>
   split_loop ic (Plus Space) s p q = ws_tokens (drop p s)"
proof (induction "length s - q" arbitrary: p q rule: less_induct)
  case less
  note dec = drop_split_nonspace[OF less.prems]
  show ?case
  proof (cases "q < length s")
    case False
    with less.prems have q: "q = length s" by simp
    with dec have "\<forall>c\<in>set (drop p s). \<not> is_space c" by simp
    then have dn: "dropWhile (\<lambda>c. \<not> is_space c) (drop p s) = []" by simp
    have "ws_tokens (drop p s) = [drop p s]"
      by (subst ws_tokens.simps) (simp only: dn list.case)
    moreover have "split_loop ic (Plus Space) s p q = [drop p s]"
      using q by (subst split_loop.simps) simp
    ultimately show ?thesis by simp
  next
    case True
    show ?thesis
    proof (cases "is_space (s ! q)")
      case False
      have "\<forall>k. p \<le> k \<and> k < Suc q \<longrightarrow> \<not> is_space (s ! k)"
        using less.prems(3) False by (auto simp: less_Suc_eq)
      moreover have "length s - Suc q < length s - q" "p \<le> Suc q" "Suc q \<le> length s"
        using True less.prems(1) by arith+
      ultimately have "split_loop ic (Plus Space) s p (Suc q) = ws_tokens (drop p s)"
        using less.hyps by blast
      moreover have "split_loop ic (Plus Space) s p q = split_loop ic (Plus Space) s p (Suc q)"
        using True False by (subst split_loop.simps) (simp add: match_at_plus_space)
      ultimately show ?thesis by simp
    next
      case sp: True
      define e where "e = q + length (takeWhile is_space (drop q s))"
      have dq: "drop q s = s ! q # drop (Suc q) s" using True by (simp add: Cons_nth_drop_Suc)
      have "length (takeWhile is_space (drop q s)) \<le> length (drop q s)"
        by (rule length_takeWhile_le)
      then have el: "e \<le> length s" using True by (simp add: e_def)
      have qe: "q < e" using dq sp by (simp add: e_def)
      have m: "match_at ic (Plus Space) s q = Some e"
        using True sp by (simp add: match_at_plus_space e_def)
      have step: "split_loop ic (Plus Space) s p q =
          take (q - p) (drop p s) # split_loop ic (Plus Space) s e e"
        using True m el qe less.prems(1) by (subst split_loop.simps) (simp add: Let_def min_def)
      have "length s - e < length s - q" using qe True by arith
      moreover have "\<forall>k. e \<le> k \<and> k < e \<longrightarrow> \<not> is_space (s ! k)" by auto
      ultimately have rec: "split_loop ic (Plus Space) s e e = ws_tokens (drop e s)"
        using less.hyps[of e e] el by blast
      have de: "dropWhile is_space (drop q s) = drop e s"
      proof -
        have "dropWhile is_space (drop q s) = drop (length (takeWhile is_space (drop q s))) (drop q s)"
          by (rule dropWhile_eq_drop)
        then show ?thesis by (simp add: e_def add.commute)
      qed
      have tw: "takeWhile (\<lambda>c. \<not> is_space c) (drop p s) = take (q - p) (drop p s)"
        by (subst dec(1)) (simp add: takeWhile_append2 dec(2) dq sp)
      have dw: "dropWhile (\<lambda>c. \<not> is_space c) (drop p s) = drop q s"
        by (subst dec(1)) (simp add: dropWhile_append2 dec(2) dq sp)
      have "ws_tokens (drop p s) =
          (case drop q s of [] \<Rightarrow> [drop p s]
           | _ # _ \<Rightarrow> take (q - p) (drop p s) # ws_tokens (drop e s))"
        by (subst ws_tokens.simps) (simp only: tw dw de)
      then have "ws_tokens (drop p s) = take (q - p) (drop p s) # ws_tokens (drop e s)"
        by (simp only: dq list.case)
      with step rec show ?thesis by simp
    qed
  qed
qed

lemma js_split_ws_tokens: "js_split ic (Plus Space) s = ws_tokens s"
proof (cases "s = []")
  case True
  then show ?thesis
    by (simp add: js_split_def match_at_plus_space) (subst ws_tokens.simps, simp)
next
  case False
  then show ?thesis
    using split_loop_ws_tokens[of 0 0 s ic] by (simp add: js_split_def)
qed

lemma ws_tokens_Nil: "ws_tokens [] = [[]]"
  by (subst ws_tokens.simps) simp

lemma ws_tokens_nosp:
  "\<forall>c\<in>set s. \<not> is_space c \<Longrightarrow> ws_tokens s = [s]"
proof -
  assume "\<forall>c\<in>set s. \<not> is_space c"
  then have dn: "dropWhile (\<lambda>c. \<not> is_space c) s = []" by simp
  show ?thesis by (subst ws_tokens.simps) (simp only: dn list.case)
qed

lemma ws_tokens_Cons:
  assumes "dropWhile (\<lambda>c. \<not> is_space c) s = c # cs"
  shows "ws_tokens s = takeWhile (\<lambda>c. \<not> is_space c) s # ws_tokens (dropWhile is_space (c # cs))"
  by (subst ws_tokens.simps) (simp only: assms list.case)

lemma ws_tokens_not_Nil: "ws_tokens s \<noteq> []"
  by (subst ws_tokens.simps) (simp split: list.splits)

lemma js_join_Cons: "ws \<noteq> [] \<Longrightarrow> js_join sep (w # ws) = w @ sep @ js_join sep ws"
  by (cases ws) simp_all

lemma takeWhile_nosp: "\<forall>c\<in>set (takeWhile (\<lambda>c. \<not> is_space c) s). \<not> is_space c"
  by (auto dest: set_takeWhileD)

lemma joined_head:
  assumes f: "token_map f" and s: "s = [] \<or> \<not> is_space (hd s)"
  shows "js_join [0x20] (map f (ws_tokens s)) = [] \<or> \<not> is_space (hd (js_join [0x20] (map f (ws_tokens s))))"
proof (cases s)
  case Nil
  with f show ?thesis by (simp add: ws_tokens_Nil token_map_def)
next
  case (Cons c cs)
  with s have c: "\<not> is_space c" by simp
  define A where "A = takeWhile (\<lambda>c. \<not> is_space c) s"
  have A: "A \<noteq> []" "hd A = c" using Cons c by (simp_all add: A_def)
  have "\<forall>c\<in>set A. \<not> is_space c" unfolding A_def by (rule takeWhile_nosp)
  with f have fA: "\<forall>c\<in>set (f A). \<not> is_space c" by (simp add: token_map_def)
  from f A have fA0: "f A \<noteq> []" by (simp add: token_map_def)
  then have hfA: "\<not> is_space (hd (f A))" using fA by (cases "f A") simp_all
  show ?thesis
  proof (cases "dropWhile (\<lambda>c. \<not> is_space c) s")
    case Nil
    then have "\<forall>c\<in>set s. \<not> is_space c" by simp
    then have "ws_tokens s = [s]" "A = s" by (simp_all add: ws_tokens_nosp A_def)
    with hfA show ?thesis by simp
  next
    case (Cons d ds)
    from ws_tokens_Cons[OF Cons] have "ws_tokens s = A # ws_tokens (dropWhile is_space (d # ds))"
      by (simp add: A_def)
    then have "js_join [0x20] (map f (ws_tokens s)) =
        f A @ [0x20] @ js_join [0x20] (map f (ws_tokens (dropWhile is_space (d # ds))))"
      by (simp add: js_join_Cons ws_tokens_not_Nil)
    with fA0 hfA show ?thesis by simp
  qed
qed

lemma ws_tokens_join:
  assumes f: "token_map f"
  shows "ws_tokens (js_join [0x20] (map f (ws_tokens s))) = map f (ws_tokens s)"
proof (induction s rule: ws_tokens.induct)
  case (1 s)
  define A where "A = takeWhile (\<lambda>c. \<not> is_space c) s"
  have "\<forall>c\<in>set A. \<not> is_space c" unfolding A_def by (rule takeWhile_nosp)
  with f have fA: "\<forall>c\<in>set (f A). \<not> is_space c" by (simp add: token_map_def)
  show ?case
  proof (cases "dropWhile (\<lambda>c. \<not> is_space c) s")
    case Nil
    then have "\<forall>c\<in>set s. \<not> is_space c" by simp
    then have s: "ws_tokens s = [s]" "A = s" by (simp_all add: ws_tokens_nosp A_def)
    with fA show ?thesis by (simp add: ws_tokens_nosp)
  next
    case (Cons d ds)
    define s' where "s' = dropWhile is_space (d # ds)"
    define X where "X = js_join [0x20] (map f (ws_tokens s'))"
    have IH: "ws_tokens X = map f (ws_tokens s')"
      using "1.IH"[OF Cons] unfolding X_def s'_def Cons .
    have ts: "ws_tokens s = A # ws_tokens s'"
      using ws_tokens_Cons[OF Cons] by (simp add: A_def s'_def)
    then have j: "js_join [0x20] (map f (ws_tokens s)) = f A @ [0x20] @ X"
      by (simp add: js_join_Cons ws_tokens_not_Nil X_def)
    have "s' = [] \<or> \<not> is_space (hd s')"
      unfolding s'_def using hd_dropWhile[of is_space "d # ds"] by blast
    from joined_head[OF f this] have hX: "X = [] \<or> \<not> is_space (hd X)" by (simp add: X_def)
    then have dX: "dropWhile is_space X = X" by (cases X) auto
    have sp: "is_space (0x20 :: cu)" by (simp add: is_space_def)
    have dw: "dropWhile (\<lambda>c. \<not> is_space c) (f A @ [0x20] @ X) = 0x20 # X"
      using fA sp by (simp add: dropWhile_append2)
    have tw: "takeWhile (\<lambda>c. \<not> is_space c) (f A @ [0x20] @ X) = f A"
      using fA sp by (simp add: takeWhile_append2)
    have "ws_tokens (f A @ [0x20] @ X) = f A # ws_tokens (dropWhile is_space (0x20 # X))"
      using ws_tokens_Cons[OF dw] tw by simp
    also have "dropWhile is_space (0x20 # X) = X" using sp dX by simp
    finally show ?thesis using j IH ts by simp
  qed
qed

section \<open>The placeholder redaction\<close>

lemma not_sensitive_placeholder: "\<not> sensitive (str ''[REDACTED]'')"
  by code_simp

lemma not_sensitive_empty: "\<not> sensitive []"
  by code_simp

lemma placeholder_no_space: "\<forall>c\<in>set (str ''[REDACTED]''). \<not> is_space c"
  by code_simp

lemma redact_words_information: "redact_words (str ''Information redacted'') = str ''Information redacted''"
  by code_simp

lemma token_map_redact_word: "token_map redact_word"
  unfolding token_map_def
proof (intro conjI allI impI)
  show "redact_word [] = []" using not_sensitive_empty by (simp add: redact_word_def)
next
  fix t :: jstring assume "t \<noteq> []"
  then show "redact_word t \<noteq> []" by (simp add: redact_word_def str_def)
next
  fix t assume "\<forall>c\<in>set t. \<not> is_space c"
  then show "\<forall>c\<in>set (redact_word t). \<not> is_space c"
    using placeholder_no_space by (simp add: redact_word_def)
qed

lemma redact_word_idem: "redact_word (redact_word t) = redact_word t"
  using not_sensitive_placeholder by (simp add: redact_word_def)

lemma redact_words_tokens: "redact_words text = js_join [0x20] (map redact_word (ws_tokens text))"
  by (simp add: redact_words_def js_split_ws_tokens str_def)

lemma redact_words_idem: "redact_words (redact_words text) = redact_words text"
proof -
  have "ws_tokens (redact_words text) = map redact_word (ws_tokens text)"
    unfolding redact_words_tokens by (rule ws_tokens_join[OF token_map_redact_word])
  then have "redact_words (redact_words text) =
      js_join [0x20] (map redact_word (map redact_word (ws_tokens text)))"
    by (simp add: redact_words_tokens)
  also have "map redact_word (map redact_word (ws_tokens text)) = map redact_word (ws_tokens text)"
    by (simp add: redact_word_idem)
  finally show ?thesis by (simp add: redact_words_tokens)
qed

lemma redact_words_not_Nil: "text \<noteq> [] \<Longrightarrow> redact_words text \<noteq> []"
proof -
  assume t: "text \<noteq> []"
  show ?thesis
  proof (cases "dropWhile (\<lambda>c. \<not> is_space c) text")
    case Nil
    then have "\<forall>c\<in>set text. \<not> is_space c" by simp
    then have "ws_tokens text = [text]" by (rule ws_tokens_nosp)
    with t token_map_redact_word show ?thesis by (simp add: redact_words_tokens token_map_def)
  next
    case (Cons d ds)
    from ws_tokens_Cons[OF Cons] show ?thesis
      by (simp add: redact_words_tokens js_join_Cons ws_tokens_not_Nil)
  qed
qed

lemma redact_words_tokenwise: "redact_words text = tokenwise_redaction text"
proof -
  have "redact_word = (\<lambda>token. if sensitive token then str ''[REDACTED]'' else token)"
    by (rule ext) (simp add: redact_word_def)
  then show ?thesis by (simp add: redact_words_tokens tokenwise_redaction_def)
qed

lemma tokenwise_redaction_Nil: "tokenwise_redaction [] = []"
  using not_sensitive_empty by (simp add: tokenwise_redaction_def ws_tokens_Nil)

text \<open>
  C1 (amended). On every string the parser's createRedactedVersion is the token-wise
  redaction: the string is split on whitespace runs, a token becomes the placeholder
  exactly when it matches one of the eleven patterns, the others are kept, and the tokens
  are joined with single spaces. The sketch's createRedactedVersion is the same on every
  non-empty string, and returns "Information redacted" on the empty one.
\<close>

theorem createRedactedVersion_tokenwise:
  "createRedactedVersion text = tokenwise_redaction text \<and>
   (text \<noteq> [] \<longrightarrow> createRedactedVersion_sketch text = tokenwise_redaction text) \<and>
   createRedactedVersion_sketch [] = str ''Information redacted''"
  by (simp add: createRedactedVersion_def createRedactedVersion_sketch_def
      redact_words_tokenwise tokenwise_redaction_Nil)

lemma tokenwise_redaction_example:
  "tokenwise_redaction (str ''24  deaths reported'') = str ''[REDACTED] [REDACTED] reported''"
  by code_simp

theorem createRedactedVersion_tokenwise_witness:
  "str ''24  deaths reported'' \<noteq> [] \<and>
   createRedactedVersion (str ''24  deaths reported'') = str ''[REDACTED] [REDACTED] reported'' \<and>
   createRedactedVersion_sketch (str ''24  deaths reported'') = str ''[REDACTED] [REDACTED] reported''"
proof -
  have ne: "str ''24  deaths reported'' \<noteq> []" by (simp add: str_def)
  with createRedactedVersion_tokenwise[of "str ''24  deaths reported''"] tokenwise_redaction_example
  show ?thesis by simp
qed

text \<open>
  C1 as stated fails for the sketch's function on the empty string, where the guard
  returns "Information redacted" and the token-wise redaction is the empty string.
\<close>

theorem createRedactedVersion_sketch_empty_counterexample:
  "createRedactedVersion_sketch [] \<noteq> tokenwise_redaction []"
  by (simp add: createRedactedVersion_sketch_def tokenwise_redaction_Nil str_def)

text \<open>
  C10. The placeholder redaction is idempotent, in the parser and in the sketch: applying
  it to its own output changes nothing.
\<close>

theorem createRedactedVersion_idempotent:
  "createRedactedVersion (createRedactedVersion t) = createRedactedVersion t \<and>
   createRedactedVersion_sketch (createRedactedVersion_sketch t) = createRedactedVersion_sketch t"
proof
  show "createRedactedVersion (createRedactedVersion t) = createRedactedVersion t"
    by (simp add: createRedactedVersion_def redact_words_idem redact_words_not_Nil)
  show "createRedactedVersion_sketch (createRedactedVersion_sketch t) = createRedactedVersion_sketch t"
  proof (cases "t = []")
    case True
    have "str ''Information redacted'' \<noteq> []" by (simp add: str_def)
    with True show ?thesis
      by (simp add: createRedactedVersion_sketch_def redact_words_information)
  next
    case False
    then show ?thesis
      by (simp add: createRedactedVersion_sketch_def redact_words_idem redact_words_not_Nil)
  qed
qed

section \<open>The paraphrase redaction\<close>

lemma find_none: "\<forall>x\<in>set xs. \<not> P x \<Longrightarrow> List.find P xs = None"
  by (induction xs) simp_all

lemma ends_Seq_Nil: "(\<And>m. ends ic b s m = []) \<Longrightarrow> ends ic (Seq a b) s i = []"
  by simp

lemma ends_percent_sign:
  assumes "\<forall>m. Suc m < length s \<and> s ! m = 0x25 \<longrightarrow> \<not> is_word (s ! Suc m)"
  shows "ends False (Seq (Lit 0x25) WordB) s m = []"
proof (cases "m < length s \<and> s ! m = 0x25")
  case False
  then show ?thesis by (auto simp: canonicalize_def)
next
  case True
  have nw: "\<not> is_word (0x25 :: cu)" by (simp add: is_word_def is_digit_def)
  from True assms have "Suc m < length s \<longrightarrow> \<not> is_word (s ! Suc m)" by blast
  with True nw show ?thesis by (auto simp: canonicalize_def)
qed

lemma percent_pattern_no_match:
  assumes "\<forall>m. Suc m < length s \<and> s ! m = 0x25 \<longrightarrow> \<not> is_word (s ! Suc m)"
  shows "match_at False percent_pattern s k = None"
proof -
  note e = ends_percent_sign[OF assms]
  have "ends False percent_pattern s k = []"
    unfolding percent_pattern_def
    by (rule ends_Seq_Nil, rule ends_Seq_Nil, rule ends_Seq_Nil, rule e)
  then show ?thesis by (simp add: match_at_def)
qed

lemma replace_all_no_match:
  assumes "\<And>k. match_at ic r s k = None"
  shows "replace_all ic r rep s = s"
proof -
  have "List.find (\<lambda>k. match_at ic r s k \<noteq> None) [0..<Suc (length s)] = None"
    by (rule find_none) (simp add: assms)
  then have "regex_exec ic r s 0 = None" by (simp add: regex_exec_def)
  then show ?thesis by (simp add: replace_all_def replace_loop.simps)
qed

lemma percent_before_word_nth:
  assumes "\<not> percent_before_word text"
  shows "\<forall>m. Suc m < length text \<and> text ! m = 0x25 \<longrightarrow> \<not> is_word (text ! Suc m)"
proof (intro allI impI)
  fix m assume m: "Suc m < length text \<and> text ! m = 0x25"
  then have "m < length (zip text (tl text))" by auto
  then have "zip text (tl text) ! m \<in> set (zip text (tl text))" by (rule nth_mem)
  moreover have "m < length text" "m < length (tl text)" using m by auto
  then have "zip text (tl text) ! m = (text ! m, text ! Suc m)"
    by (simp add: nth_tl)
  ultimately have "(text ! m, text ! Suc m) \<in> set (zip text (tl text))" by simp
  with assms m show "\<not> is_word (text ! Suc m)"
    by (auto simp: percent_before_word_def list_ex_iff)
qed

lemma percentage_rule_identity:
  assumes "\<not> percent_before_word text"
  shows "replace_all False percent_pattern rep text = text"
  by (rule replace_all_no_match) (rule percent_pattern_no_match[OF percent_before_word_nth[OF assms]])

lemma paraphrase_examples:
  "createRedactedVersion_paraphrase (str ''a 15% decline'') = str ''a several% decline''"
  "createRedactedVersion_paraphrase (str ''15%x'') = str ''a percentagex''"
  by code_simp+

lemma example_percent_before_space: "\<not> percent_before_word (str ''a 15% decline'')"
  by code_simp

text \<open>
  C2. The paraphrase redaction does not turn an ordinary percentage into "a percentage".
  Its first pattern ends in \<open>\b\<close> after the percent sign, which holds only before a
  word character: on a text in which no percent sign stands directly before a word
  character the first replacement changes nothing, so the digit rule rewrites the number
  and the percent sign stays, as in "a 15% decline". The rule fires in "15%x".
\<close>

theorem createRedactedVersion_paraphrase_percent:
  "(\<not> percent_before_word text \<longrightarrow>
      replace_all False percent_pattern (str ''a percentage'') text = text) \<and>
   createRedactedVersion_paraphrase (str ''a 15% decline'') = str ''a several% decline'' \<and>
   createRedactedVersion_paraphrase (str ''15%x'') = str ''a percentagex''"
  using percentage_rule_identity [of "text" "str ''a percentage''"] paraphrase_examples
  by simp

theorem createRedactedVersion_paraphrase_percent_witness:
  "\<not> percent_before_word (str ''a 15% decline'') \<and>
   replace_all False percent_pattern (str ''a percentage'') (str ''a 15% decline'') =
     str ''a 15% decline'' \<and>
   createRedactedVersion_paraphrase (str ''a 15% decline'') = str ''a several% decline''"
  using createRedactedVersion_paraphrase_percent [of "str ''a 15% decline''"]
    example_percent_before_space
  by simp

section \<open>Entries stored by addEntry\<close>

lemma js_trim_Nil [simp]: "js_trim [] = []"
  by (simp add: js_trim_def)

lemma nonblank_Inr: "nonblank v = Inr b \<Longrightarrow> b = nonblank_string v"
  by (cases v) (auto simp: nonblank_def nonblank_string_def split: if_splits)

lemma nonblank_total: "string_or_falsy v \<Longrightarrow> nonblank v = Inr (nonblank_string v)"
  by (cases v) (auto simp: nonblank_def nonblank_string_def string_or_falsy_def)

lemma keep_change_Inr: "keep_change ch = Inr b \<Longrightarrow> b = valid_change ch"
  by (auto simp: keep_change_def valid_change_def split: sum.splits bool.splits dest: nonblank_Inr)

lemma keep_change_total:
  "string_or_falsy (ch_from ch) \<Longrightarrow> string_or_falsy (ch_to ch) \<Longrightarrow> keep_change ch = Inr (valid_change ch)"
  by (simp add: keep_change_def valid_change_def nonblank_total split: bool.splits)

lemma filter_changes_Inr: "filter_changes chs = Inr kept \<Longrightarrow> kept = filter valid_change chs"
  by (induction chs arbitrary: kept) (auto split: sum.splits dest: keep_change_Inr)

lemma filter_changes_total:
  "\<forall>ch\<in>set chs. string_or_falsy (ch_from ch) \<and> string_or_falsy (ch_to ch) \<Longrightarrow>
   filter_changes chs = Inr (filter valid_change chs)"
  by (induction chs) (simp_all add: keep_change_total)

lemma addEntry_Inr:
  assumes "addEntry this entry = Inr this'"
  shows "this' =
     (if length (processedEntries this) < maxEntries this \<and> filter valid_change (the_changes entry) \<noteq> []
      then this\<lparr>processedEntries :=
             processedEntries this @ [entry\<lparr>changes := Some (filter valid_change (the_changes entry))\<rparr>]\<rparr>
      else this)"
  using assms
  by (auto simp: addEntry_def the_changes_def split: if_splits option.splits sum.splits
      dest!: filter_changes_Inr)

lemma addEntry_total:
  assumes "\<forall>ch\<in>set (the_changes entry). string_or_falsy (ch_from ch) \<and> string_or_falsy (ch_to ch)"
  shows "\<exists>this'. addEntry this entry = Inr this'"
  using filter_changes_total[of "the_changes entry"] assms
  by (auto simp: addEntry_def the_changes_def split: option.splits)

lemma valid_entry_filtered:
  "filter valid_change chs \<noteq> [] \<Longrightarrow> valid_entry (entry\<lparr>changes := Some (filter valid_change chs)\<rparr>)"
  by (simp add: valid_entry_def list_all_iff)

lemma addEntry_valid:
  assumes "addEntry this entry = Inr this'" "list_all valid_entry (processedEntries this)"
  shows "list_all valid_entry (processedEntries this')"
  using addEntry_Inr[OF assms(1)] assms(2) valid_entry_filtered[of "the_changes entry" entry]
  by (auto split: if_splits)


text \<open>
  C4. A new parser stores only valid entries. addEntry returns normally whenever the from
  and to of every change are strings or missing. When it returns, it has pushed the entry
  with exactly its valid changes (from and to strings that are not empty after trimming) if
  there was room and a valid change was left, and nothing otherwise; so a parser whose
  stored entries are all valid stays one.
\<close>

theorem addEntry_keeps_valid_changes:
  "list_all valid_entry (processedEntries new_GDGParser) \<and>
   (list_all (\<lambda>ch. string_or_falsy (ch_from ch) \<and> string_or_falsy (ch_to ch)) (the_changes entry) \<longrightarrow>
      (\<exists>this'. addEntry this entry = Inr this')) \<and>
   (addEntry this entry = Inr this' \<longrightarrow>
      this' =
        (if length (processedEntries this) < maxEntries this \<and>
            filter valid_change (the_changes entry) \<noteq> []
         then this\<lparr>processedEntries :=
                processedEntries this @
                [entry\<lparr>changes := Some (filter valid_change (the_changes entry))\<rparr>]\<rparr>
         else this) \<and>
      (list_all valid_entry (processedEntries this) \<longrightarrow>
         list_all valid_entry (processedEntries this')))"
proof (intro conjI impI)
  show "list_all valid_entry (processedEntries new_GDGParser)" by (simp add: new_GDGParser_def)
next
  assume "list_all (\<lambda>ch. string_or_falsy (ch_from ch) \<and> string_or_falsy (ch_to ch)) (the_changes entry)"
  then have "\<forall>ch\<in>set (the_changes entry). string_or_falsy (ch_from ch) \<and> string_or_falsy (ch_to ch)"
    by (simp add: list_all_iff)
  then show "\<exists>this'. addEntry this entry = Inr this'" by (rule addEntry_total)
next
  assume "addEntry this entry = Inr this'"
  then show "this' =
        (if length (processedEntries this) < maxEntries this \<and>
            filter valid_change (the_changes entry) \<noteq> []
         then this\<lparr>processedEntries :=
                processedEntries this @
                [entry\<lparr>changes := Some (filter valid_change (the_changes entry))\<rparr>]\<rparr>
         else this)"
    by (rule addEntry_Inr)
next
  assume "addEntry this entry = Inr this'" "list_all valid_entry (processedEntries this)"
  then show "list_all valid_entry (processedEntries this')" by (rule addEntry_valid)
qed

lemma example_entry_changes:
  "list_all (\<lambda>ch. string_or_falsy (ch_from ch) \<and> string_or_falsy (ch_to ch)) (the_changes example_entry)"
  "filter valid_change (the_changes example_entry) =
     [\<lparr>ch_from = JStr (str ''12 deaths''), ch_to = JStr (str ''several deaths''), ch_type = JUndefined\<rparr>]"
  by (simp_all add: example_entry_def the_changes_def string_or_falsy_def valid_change_def
      nonblank_string_def js_trim_def str_def is_space_def)

theorem addEntry_keeps_valid_changes_witness:
  "list_all (\<lambda>ch. string_or_falsy (ch_from ch) \<and> string_or_falsy (ch_to ch)) (the_changes example_entry) \<and>
   list_all valid_entry (processedEntries new_GDGParser) \<and>
   (\<exists>this'. addEntry new_GDGParser example_entry = Inr this' \<and>
      processedEntries this' =
        [example_entry\<lparr>changes := Some
           [\<lparr>ch_from = JStr (str ''12 deaths''), ch_to = JStr (str ''several deaths''),
             ch_type = JUndefined\<rparr>]\<rparr>] \<and>
      list_all valid_entry (processedEntries this'))"
proof -
  note T = addEntry_keeps_valid_changes[of example_entry new_GDGParser]
  from T example_entry_changes(1) obtain this' where a: "addEntry new_GDGParser example_entry = Inr this'"
    by blast
  from T[of this'] a have v: "list_all valid_entry (processedEntries this')"
    and e: "this' =
        (if length (processedEntries new_GDGParser) < maxEntries new_GDGParser \<and>
            filter valid_change (the_changes example_entry) \<noteq> []
         then new_GDGParser\<lparr>processedEntries :=
                processedEntries new_GDGParser @
                [example_entry\<lparr>changes := Some (filter valid_change (the_changes example_entry))\<rparr>]\<rparr>
         else new_GDGParser)"
    by blast+
  from e have "processedEntries this' =
        [example_entry\<lparr>changes := Some
           [\<lparr>ch_from = JStr (str ''12 deaths''), ch_to = JStr (str ''several deaths''),
             ch_type = JUndefined\<rparr>]\<rparr>]"
    by (simp add: example_entry_changes(2) new_GDGParser_def)
  with a v example_entry_changes(1) T show ?thesis by blast
qed

section \<open>What the parsers return\<close>

lemma valid_change_blank: "\<not> valid_change \<lparr>ch_from = JStr [], ch_to = t, ch_type = y\<rparr>"
  by (simp add: valid_change_def nonblank_string_def)

lemma process_article_Inr:
  assumes "process_article pl this a = Inr this1" "length (processedEntries this) < maxEntries this"
  shows "this1 = (case article_entry pl a of None \<Rightarrow> this
                  | Some e \<Rightarrow> this\<lparr>processedEntries := processedEntries this @ [e]\<rparr>)"
proof -
  from assms(1) obtain src ot where s: "extractSource pl a = Inr src"
    and t: "extractTextContent pl a = Inr ot"
    by (auto simp: process_article_def split: sum.splits)
  show ?thesis
  proof (cases "truthy ot")
    case False
    with assms(1) s t have "this1 = this" by (simp add: process_article_def)
    moreover from False have "article_entry pl a = None"
      using s t by (cases ot) (simp_all add: article_entry_def valid_change_blank)
    ultimately show ?thesis by simp
  next
    case True
    with assms(1) s t obtain x where ot: "ot = JStr x"
      by (cases ot) (simp_all add: process_article_def)
    define ch where "ch = \<lparr>ch_from = JStr x, ch_to = JStr (createRedactedVersion x),
        ch_type = JStr (str ''text'')\<rparr>"
    define e where "e = \<lparr>entry_id = JUndefined, source = src, changes = Some [ch]\<rparr>"
    from assms(1) s t True ot have "addEntry this e = Inr this1"
      by (simp add: process_article_def e_def ch_def)
    from addEntry_Inr[OF this] assms(2) have
      "this1 = (if valid_change ch then this\<lparr>processedEntries := processedEntries this @ [e]\<rparr> else this)"
      by (simp add: the_changes_def e_def)
    moreover have "article_entry pl a = (if valid_change ch then Some e else None)"
      using s t ot by (simp add: article_entry_def e_def ch_def Let_def)
    ultimately show ?thesis by simp
  qed
qed

lemma parse_articles_None:
  "parse_articles pl this xs = (this', None) \<Longrightarrow> this' = push this (List.map_filter (article_entry pl) xs)"
proof (induction xs arbitrary: this)
  case Nil
  then show ?case by (simp add: push_def List.map_filter_simps)
next
  case (Cons a xs)
  show ?case
  proof (cases "length (processedEntries this) < maxEntries this")
    case False
    with Cons.prems show ?thesis by (simp add: push_def)
  next
    case True
    with Cons.prems obtain this1 where p: "process_article pl this a = Inr this1"
      and r: "parse_articles pl this1 xs = (this', None)"
      by (auto split: sum.splits)
    note IH = Cons.IH[OF r]
    show ?thesis
    proof (cases "article_entry pl a")
      case None
      with process_article_Inr[OF p True] IH show ?thesis
        by (simp add: List.map_filter_simps)
    next
      case (Some e)
      with process_article_Inr[OF p True] have
        t1: "this1 = this\<lparr>processedEntries := processedEntries this @ [e]\<rparr>" by simp
      obtain n where n: "maxEntries this - length (processedEntries this) = Suc n"
        using True by (cases "maxEntries this - length (processedEntries this)") auto
      then have "maxEntries this - Suc (length (processedEntries this)) = n" by arith
      with IH t1 n Some show ?thesis
        by (simp add: List.map_filter_simps push_def)
    qed
  qed
qed

lemma item_entry_changes:
  "\<exists>chs. changes (item_entry pl item) = Some chs \<and>
     (\<forall>ch\<in>set chs. \<exists>f t. ch_from ch = JStr f \<and> ch_to ch = JStr t)"
  by (auto simp: item_entry_def Let_def description_changes_def synthetic_changes_def)

lemma process_item_eq:
  assumes "length (processedEntries this) < maxEntries this"
  shows "process_item pl this item =
     Inr (case item_stored pl item of None \<Rightarrow> this
          | Some e \<Rightarrow> this\<lparr>processedEntries := processedEntries this @ [e]\<rparr>)"
proof -
  define e where "e = item_entry pl item"
  from item_entry_changes[of pl item] obtain chs where chs: "changes e = Some chs"
    and str: "\<forall>ch\<in>set chs. \<exists>f t. ch_from ch = JStr f \<and> ch_to ch = JStr t"
    unfolding e_def by blast
  have tc: "the_changes e = chs" using chs by (simp add: the_changes_def)
  show ?thesis
  proof (cases "chs = []")
    case True
    then have "item_stored pl item = None"
      using tc by (simp add: item_stored_def e_def[symmetric])
    with True chs show ?thesis by (simp add: process_item_def e_def[symmetric])
  next
    case False
    from str have "\<forall>ch\<in>set (the_changes e). string_or_falsy (ch_from ch) \<and> string_or_falsy (ch_to ch)"
      unfolding tc by (auto simp: string_or_falsy_def)
    from addEntry_total[OF this, of this] obtain this1 where a: "addEntry this e = Inr this1"
      by blast
    from addEntry_Inr[OF a] assms have "this1 =
        (case item_stored pl item of None \<Rightarrow> this
         | Some e \<Rightarrow> this\<lparr>processedEntries := processedEntries this @ [e]\<rparr>)"
      by (simp add: item_stored_def e_def[symmetric] Let_def)
    with a False chs show ?thesis by (simp add: process_item_def e_def[symmetric])
  qed
qed

lemma parse_items_eq:
  "parse_items pl this items = (push this (List.map_filter (item_stored pl) items), None)"
proof (induction items arbitrary: this)
  case Nil
  show ?case by (simp add: push_def List.map_filter_simps)
next
  case (Cons a items)
  show ?case
  proof (cases "length (processedEntries this) < maxEntries this")
    case False
    then show ?thesis by (simp add: push_def)
  next
    case True
    note p = process_item_eq[OF True, of pl a]
    show ?thesis
    proof (cases "item_stored pl a")
      case None
      with p True Cons.IH[of this] show ?thesis by (simp add: List.map_filter_simps)
    next
      case (Some e)
      obtain n where n: "maxEntries this - length (processedEntries this) = Suc n"
        using True by (cases "maxEntries this - length (processedEntries this)") auto
      then have "maxEntries this - Suc (length (processedEntries this)) = n" by arith
      with p True Some n Cons.IH[of "this\<lparr>processedEntries := processedEntries this @ [e]\<rparr>"]
      show ?thesis by (simp add: List.map_filter_simps push_def)
    qed
  qed
qed

lemma sample_lengths: "length getSampleData = 2" "length getSampleData_rss = 10"
  by (simp_all add: getSampleData_def getSampleData_rss_def)

lemma parseGDGData_fst:
  "fst (parseGDGData pl this data) =
     (if truthy data then
        (case get_prop data ''articles'' of
           Inr (JArr xs) \<Rightarrow>
             (case snd (parse_articles pl this xs) of
                Some e \<Rightarrow> getSampleData
              | None \<Rightarrow> processedEntries (push this (List.map_filter (article_entry pl) xs)))
         | _ \<Rightarrow> getSampleData)
      else getSampleData)"
proof (cases "truthy data")
  case False
  then show ?thesis by (simp add: parseGDGData_def)
next
  case True
  show ?thesis
  proof (cases "get_prop data ''articles''")
    case (Inl e)
    with True show ?thesis by (simp add: parseGDGData_def)
  next
    case (Inr articles)
    show ?thesis
    proof (cases "\<exists>xs. articles = JArr xs")
      case False
      with True Inr show ?thesis by (cases articles) (simp_all add: parseGDGData_def)
    next
      case yes: True
      then obtain xs where xs: "articles = JArr xs" by blast
      obtain this' r where p: "parse_articles pl this xs = (this', r)"
        by (cases "parse_articles pl this xs")
      show ?thesis
      proof (cases r)
        case None
        with p parse_articles_None[of pl this xs this'] True Inr xs show ?thesis
          by (simp add: parseGDGData_def)
      next
        case (Some e)
        with p True Inr xs show ?thesis by (simp add: parseGDGData_def)
      qed
    qed
  qed
qed

lemma parseGDGData_rss_fst:
  "fst (parseGDGData_rss pl this raw) =
     (case dom_items pl raw of
        Inl e \<Rightarrow> getSampleData_rss
      | Inr items \<Rightarrow>
          if length (processedEntries (push this (List.map_filter (item_stored pl) items))) < 10
          then getSampleData_rss
          else processedEntries (push this (List.map_filter (item_stored pl) items)))"
  by (simp add: parseGDGData_rss_def parse_items_eq split: sum.splits)

lemma example_article_entry: "article_entry example_platform example_article = Some \<lparr>entry_id = JUndefined, source = JStr (str ''example.org''),
         changes = Some [\<lparr>ch_from = JStr (str ''Police probe 12 deaths''),
                          ch_to = JStr (str ''[REDACTED] [REDACTED] [REDACTED] [REDACTED]''),
                          ch_type = JStr (str ''text'')\<rparr>]\<rparr>"
  by code_simp

lemma example_item_stored: "item_stored example_platform example_item = Some \<lparr>entry_id = JUndefined, source = JStr (str ''example.org''),
         changes = Some [\<lparr>ch_from = JStr (str ''Spending [content redacted]''),
                          ch_to = JStr (str ''cut by 5 percent''),
                          ch_type = JUndefined\<rparr>]\<rparr>"
  by code_simp

lemma example_dom_items: "dom_items example_platform raw = Inr [example_item]"
  by (simp add: example_platform_def)

text \<open>
  C3 (amended). The article parser returns the sample data when the input is falsy (null
  and undefined included), when it has no articles array, and when processing an article
  throws; otherwise it returns the entries the parser held followed by the entries derived
  from the articles, as far as maxEntries allows. The feed parser returns its sample data
  when the platform's parsing throws and when fewer than 10 entries are held after the
  loop; otherwise it returns the entries held followed by those derived from the items.
  Both are total: no exception leaves them.
\<close>

theorem parseGDGData_fallback:
  "fst (parseGDGData pl this data) =
     (if truthy data then
        (case get_prop data ''articles'' of
           Inr (JArr xs) \<Rightarrow>
             (case snd (parse_articles pl this xs) of
                Some e \<Rightarrow> getSampleData
              | None \<Rightarrow> processedEntries (push this (List.map_filter (article_entry pl) xs)))
         | _ \<Rightarrow> getSampleData)
      else getSampleData) \<and>
   fst (parseGDGData_rss pl this' raw) =
     (case dom_items pl raw of
        Inl e \<Rightarrow> getSampleData_rss
      | Inr items \<Rightarrow>
          if length (processedEntries (push this' (List.map_filter (item_stored pl) items))) < 10
          then getSampleData_rss
          else processedEntries (push this' (List.map_filter (item_stored pl) items)))"
  using parseGDGData_fst[of pl this data] parseGDGData_rss_fst[of pl this' raw] by (rule conjI)

lemma example_no_exception:
  "snd (parse_articles example_platform new_GDGParser [example_article]) = None"
  "snd (parse_articles example_platform new_GDGParser [JNull]) = Some TypeError"
  by code_simp+

theorem parseGDGData_fallback_witness:
  "fst (parseGDGData example_platform new_GDGParser JNull) = getSampleData \<and>
   fst (parseGDGData example_platform new_GDGParser (JObj [(str ''articles'', JArr [JNull])])) =
     getSampleData \<and>
   fst (parseGDGData example_platform new_GDGParser example_data) =
     [\<lparr>entry_id = JUndefined, source = JStr (str ''example.org''),
       changes = Some [\<lparr>ch_from = JStr (str ''Police probe 12 deaths''),
                        ch_to = JStr (str ''[REDACTED] [REDACTED] [REDACTED] [REDACTED]''),
                        ch_type = JStr (str ''text'')\<rparr>]\<rparr>] \<and>
   fst (parseGDGData_rss example_platform new_GDGParser (JStr (str ''<rss/>''))) = getSampleData_rss"
  using parseGDGData_fallback [of example_platform new_GDGParser JNull new_GDGParser "JStr (str ''<rss/>'')"]
    parseGDGData_fallback [of example_platform new_GDGParser "JObj [(str ''articles'', JArr [JNull])]"]
    parseGDGData_fallback [of example_platform new_GDGParser example_data]
    example_no_exception
  by (simp add: example_data_def own_prop_def push_def new_GDGParser_def example_article_entry
      example_dom_items example_item_stored)

text \<open>
  C3 as stated fails for the feed parser: nothing throws, an entry is derived from the one
  item of the feed, and the sample data is returned.
\<close>

theorem parseGDGData_rss_fallback_counterexample:
  "dom_items example_platform (JStr (str ''<rss/>'')) = Inr [example_item] \<and>
   snd (parse_items example_platform new_GDGParser [example_item]) = None \<and>
   length (processedEntries (fst (parse_items example_platform new_GDGParser [example_item]))) = 1 \<and>
   fst (parseGDGData_rss example_platform new_GDGParser (JStr (str ''<rss/>''))) = getSampleData_rss"
  by (simp add: parse_items_eq parseGDGData_rss_fst push_def example_dom_items new_GDGParser_def
      example_item_stored)

lemma parseGDGData_rss_snd:
  "dom_items pl raw = Inr items \<Longrightarrow>
   snd (parseGDGData_rss pl this raw) = push this (List.map_filter (item_stored pl) items)"
  by (simp add: parseGDGData_rss_def parse_items_eq)

text \<open>
  C8 (amended). The guard compares the entries the parser holds after the loop, and the
  entries extracted from the feed stay in the parser. When the feed is parsed, the parser
  is left holding its entries followed by those extracted, as far as there is room; the
  result is the sample data when fewer than 10 entries are then held, also when nothing
  throws, and the entries held otherwise; so a result that is not the sample data has at
  least 10 entries. On a new parser the entries held are the entries extracted: fewer than
  10 extracted entries give the sample data.
\<close>

theorem parseGDGData_rss_threshold:
  "(dom_items pl raw = Inr items \<longrightarrow>
      snd (parseGDGData_rss pl this raw) = push this (List.map_filter (item_stored pl) items)) \<and>
   (length (processedEntries (snd (parseGDGData_rss pl this raw))) < 10 \<longrightarrow>
      fst (parseGDGData_rss pl this raw) = getSampleData_rss) \<and>
   (dom_items pl raw = Inr items \<and> 10 \<le> length (processedEntries (snd (parseGDGData_rss pl this raw))) \<longrightarrow>
      fst (parseGDGData_rss pl this raw) = processedEntries (snd (parseGDGData_rss pl this raw))) \<and>
   (fst (parseGDGData_rss pl this raw) = getSampleData_rss \<or>
    10 \<le> length (fst (parseGDGData_rss pl this raw))) \<and>
   (dom_items pl raw = Inr items \<and> length (List.map_filter (item_stored pl) items) < 10 \<longrightarrow>
      fst (parseGDGData_rss pl new_GDGParser raw) = getSampleData_rss)"
proof (intro conjI impI)
  assume "dom_items pl raw = Inr items"
  then show "snd (parseGDGData_rss pl this raw) = push this (List.map_filter (item_stored pl) items)"
    by (rule parseGDGData_rss_snd)
next
  assume "length (processedEntries (snd (parseGDGData_rss pl this raw))) < 10"
  then show "fst (parseGDGData_rss pl this raw) = getSampleData_rss"
    by (auto simp: parseGDGData_rss_def parse_items_eq split: sum.splits if_splits)
next
  assume "dom_items pl raw = Inr items \<and> 10 \<le> length (processedEntries (snd (parseGDGData_rss pl this raw)))"
  then show "fst (parseGDGData_rss pl this raw) = processedEntries (snd (parseGDGData_rss pl this raw))"
    by (auto simp: parseGDGData_rss_def parse_items_eq split: if_splits)
next
  show "fst (parseGDGData_rss pl this raw) = getSampleData_rss \<or>
    10 \<le> length (fst (parseGDGData_rss pl this raw))"
    by (auto simp: parseGDGData_rss_fst split: sum.splits)
next
  assume "dom_items pl raw = Inr items \<and> length (List.map_filter (item_stored pl) items) < 10"
  then show "fst (parseGDGData_rss pl new_GDGParser raw) = getSampleData_rss"
    by (simp add: parseGDGData_rss_fst push_def new_GDGParser_def)
qed

lemma example_item_gives: "item_stored example_platform example_item = Some example_stored"
  using example_item_stored by (simp add: example_stored_def)

lemma feed_again_push: "feed_again this = push this [example_stored]"
  by (simp add: feed_again_def parseGDGData_rss_def parse_items_eq example_dom_items example_item_gives)

lemma fed_times:
  "n \<le> 100 \<Longrightarrow>
   (feed_again ^^ n) new_GDGParser = new_GDGParser\<lparr>processedEntries := replicate n example_stored\<rparr>"
proof (induction n)
  case 0
  show ?case by (simp add: new_GDGParser_def)
next
  case (Suc n)
  then have IH: "(feed_again ^^ n) new_GDGParser =
      new_GDGParser\<lparr>processedEntries := replicate n example_stored\<rparr>"
    by simp
  have room: "100 - n = Suc (99 - n)" using Suc.prems by arith
  have "(feed_again ^^ Suc n) new_GDGParser = feed_again ((feed_again ^^ n) new_GDGParser)"
    by simp
  also have "\<dots> = push (new_GDGParser\<lparr>processedEntries := replicate n example_stored\<rparr>) [example_stored]"
    by (simp only: IH feed_again_push)
  also have "\<dots> = new_GDGParser\<lparr>processedEntries := replicate (Suc n) example_stored\<rparr>"
    by (simp add: push_def new_GDGParser_def room replicate_append_same)
  finally show ?case .
qed

lemma ten_parser_holds:
  "ten_parser = new_GDGParser\<lparr>processedEntries := replicate 10 example_stored\<rparr>"
  by (simp add: ten_parser_def fed_times)

lemma ten_parser_fed:
  "parseGDGData_rss example_platform ten_parser raw =
     (replicate 10 example_stored @ [example_stored],
      ten_parser\<lparr>processedEntries := replicate 10 example_stored @ [example_stored]\<rparr>)"
  by (simp add: parseGDGData_rss_def parse_items_eq example_dom_items example_item_gives push_def
      ten_parser_holds new_GDGParser_def)

lemma new_parser_fed:
  "parseGDGData_rss example_platform new_GDGParser raw =
     (getSampleData_rss, new_GDGParser\<lparr>processedEntries := [example_stored]\<rparr>)"
  by (simp add: parseGDGData_rss_def parse_items_eq example_dom_items example_item_gives push_def
      new_GDGParser_def)

theorem parseGDGData_rss_threshold_witness:
  "dom_items example_platform example_feed = Inr [example_item] \<and>
   length (List.map_filter (item_stored example_platform) [example_item]) = 1 \<and>
   length (processedEntries (snd (parseGDGData_rss example_platform new_GDGParser example_feed))) = 1 \<and>
   fst (parseGDGData_rss example_platform new_GDGParser example_feed) = getSampleData_rss \<and>
   length (processedEntries (snd (parseGDGData_rss example_platform ten_parser example_feed))) = 11 \<and>
   fst (parseGDGData_rss example_platform ten_parser example_feed) =
     processedEntries (snd (parseGDGData_rss example_platform ten_parser example_feed))"
proof -
  note d = example_dom_items[of example_feed]
  have l: "length (processedEntries (snd (parseGDGData_rss example_platform new_GDGParser example_feed))) = 1"
    by (simp add: new_parser_fed)
  have t: "length (processedEntries (snd (parseGDGData_rss example_platform ten_parser example_feed))) = 11"
    by (simp add: ten_parser_fed)
  from parseGDGData_rss_threshold [of example_platform example_feed "[example_item]" new_GDGParser]
    parseGDGData_rss_threshold [of example_platform example_feed "[example_item]" ten_parser]
    d l t
  show ?thesis by (simp add: example_item_gives)
qed

text \<open>
  C8 as stated fails on a parser that already holds entries: after the one-item feed has
  been parsed ten times the parser holds 10 entries, and parsing it once more, with one
  entry extracted and nothing thrown, returns 11 entries and not the sample data.
\<close>

theorem parseGDGData_rss_held_counterexample:
  "dom_items example_platform example_feed = Inr [example_item] \<and>
   length (List.map_filter (item_stored example_platform) [example_item]) = 1 \<and>
   length (processedEntries ten_parser) = 10 \<and>
   length (fst (parseGDGData_rss example_platform ten_parser example_feed)) = 11 \<and>
   fst (parseGDGData_rss example_platform ten_parser example_feed) \<noteq> getSampleData_rss"
proof -
  have "length (fst (parseGDGData_rss example_platform ten_parser example_feed)) = 11"
    by (simp add: ten_parser_fed)
  moreover from this have
    "fst (parseGDGData_rss example_platform ten_parser example_feed) \<noteq> getSampleData_rss"
    using sample_lengths(2) by auto
  ultimately show ?thesis
    by (simp add: example_dom_items example_item_gives ten_parser_holds new_GDGParser_def)
qed

section \<open>The bound on the processed entries\<close>










section \<open>The source of an article\<close>

lemma ends_www: "ends False (lits ''www.'') h 0 = (if take 4 h = str ''www.'' then [4] else [])"
proof (cases h)
  case Nil
  then show ?thesis by (simp add: lits_def str_def)
next
  case h1: (Cons a t1)
  show ?thesis
  proof (cases t1)
    case Nil
    with h1 show ?thesis by (simp add: lits_def str_def canonicalize_def)
  next
    case h2: (Cons b t2)
    show ?thesis
    proof (cases t2)
      case Nil
      with h1 h2 show ?thesis by (simp add: lits_def str_def canonicalize_def)
    next
      case h3: (Cons c t3)
      show ?thesis
      proof (cases t3)
        case Nil
        with h1 h2 h3 show ?thesis by (simp add: lits_def str_def canonicalize_def)
      next
        case (Cons d t4)
        with h1 h2 h3 show ?thesis by (simp add: lits_def str_def canonicalize_def)
      qed
    qed
  qed
qed

lemma find_upt_first: "P 0 \<Longrightarrow> List.find P [0..<Suc n] = Some 0"
  by (simp add: upt_rec)

lemma match_at_bol: "0 < k \<Longrightarrow> match_at ic (Seq Bol r) s k = None"
  by (simp add: match_at_def)

lemma replace_first_www: "replace_first False (Seq Bol (lits ''www.'')) [] h = strip_www h"
proof (cases "take 4 h = str ''www.''")
  case True
  then have m: "match_at False (Seq Bol (lits ''www.'')) h 0 = Some 4"
    by (simp add: match_at_def ends_www)
  then have "List.find (\<lambda>k. match_at False (Seq Bol (lits ''www.'')) h k \<noteq> None) [0..<Suc (length h)] = Some 0"
    by (intro find_upt_first) simp
  with m have "regex_exec False (Seq Bol (lits ''www.'')) h 0 = Some (0, 4)"
    by (simp add: regex_exec_def)
  with True show ?thesis by (simp add: replace_first_def strip_www_def)
next
  case False
  then have m: "match_at False (Seq Bol (lits ''www.'')) h 0 = None"
    by (simp add: match_at_def ends_www)
  have "\<forall>k\<in>set [0..<Suc (length h)]. \<not> match_at False (Seq Bol (lits ''www.'')) h k \<noteq> None"
  proof
    fix k assume "k \<in> set [0..<Suc (length h)]"
    show "\<not> match_at False (Seq Bol (lits ''www.'')) h k \<noteq> None"
      using m match_at_bol[of k] by (cases "k = 0") auto
  qed
  then have "List.find (\<lambda>k. match_at False (Seq Bol (lits ''www.'')) h k \<noteq> None) [0..<Suc (length h)] = None"
    by (rule find_none)
  with False show ?thesis by (simp add: replace_first_def regex_exec_def strip_www_def)
qed

text \<open>
  C6. For an article object, extractSource returns its source when that is truthy;
  otherwise, when its url is truthy, the hostname of the url without a leading "www.", or
  the url itself when the URL constructor throws; otherwise its domain when that is
  truthy; otherwise "News Article".
\<close>

theorem extractSource_fallback_chain:
  "extractSource pl (JObj kvs) = Inr
     (if truthy (own_prop kvs ''source'') then own_prop kvs ''source''
      else if truthy (own_prop kvs ''url'') then
        (case url_hostname pl (own_prop kvs ''url'') of
           Some hostname \<Rightarrow> JStr (strip_www hostname)
         | None \<Rightarrow> own_prop kvs ''url'')
      else if truthy (own_prop kvs ''domain'') then own_prop kvs ''domain''
      else JStr (str ''News Article''))"
  by (simp add: extractSource_def formatUrl_def replace_first_www split: option.splits)

lemma example_source:
  "own_prop [(str ''url'', JStr (str ''https://www.example.org/a'')),
             (str ''title'', JStr (str ''Police probe 12 deaths''))] ''source'' = JUndefined"
  "own_prop [(str ''url'', JStr (str ''https://www.example.org/a'')),
             (str ''title'', JStr (str ''Police probe 12 deaths''))] ''url'' =
     JStr (str ''https://www.example.org/a'')"
  "truthy (JStr (str ''https://www.example.org/a''))"
  "url_hostname example_platform (JStr (str ''https://www.example.org/a'')) = Some (str ''www.example.org'')"
  "strip_www (str ''www.example.org'') = str ''example.org''"
  by code_simp+

theorem extractSource_fallback_chain_witness:
  "extractSource example_platform example_article = Inr (JStr (str ''example.org''))"
  using extractSource_fallback_chain [of example_platform
      "[(str ''url'', JStr (str ''https://www.example.org/a'')),
        (str ''title'', JStr (str ''Police probe 12 deaths''))]"]
  by (simp only: example_source example_article_def truthy.simps(1) if_True if_False option.case)

section \<open>The shape of the entries\<close>

lemma truthy_string: "string_or_falsy v \<Longrightarrow> truthy v \<Longrightarrow> is_string v"
  by (cases v) (simp_all add: string_or_falsy_def is_string_def)

lemma formatUrl_string: "is_string url \<Longrightarrow> is_string (formatUrl pl url)"
  by (simp add: formatUrl_def is_string_def split: option.splits)

lemma extractSource_string:
  assumes "extractSource pl a = Inr src" "string_fields a"
  shows "is_string src"
proof -
  from assms(1) obtain s where s: "get_prop a ''source'' = Inr s"
    by (auto simp: extractSource_def split: sum.splits)
  show ?thesis
  proof (cases "truthy s")
    case True
    with assms s show ?thesis by (auto simp: extractSource_def string_fields_def truthy_string)
  next
    case ns: False
    with assms(1) s obtain u where u: "get_prop a ''url'' = Inr u"
      by (auto simp: extractSource_def split: sum.splits)
    show ?thesis
    proof (cases "truthy u")
      case True
      with assms s ns u have "src = formatUrl pl u" "is_string u"
        by (auto simp: extractSource_def string_fields_def truthy_string)
      then show ?thesis by (simp add: formatUrl_string)
    next
      case nu: False
      with assms(1) s ns u obtain d where d: "get_prop a ''domain'' = Inr d"
        by (auto simp: extractSource_def split: sum.splits)
      show ?thesis
      proof (cases "truthy d")
        case True
        with assms s ns u nu d show ?thesis
          by (auto simp: extractSource_def string_fields_def truthy_string)
      next
        case False
        with assms s ns u nu d show ?thesis
          by (auto simp: extractSource_def is_string_def)
      qed
    qed
  qed
qed

lemma article_entry_conforms:
  assumes "article_entry pl a = Some e" "string_fields a"
  shows "conforms e"
proof -
  from assms(1) obtain src where s: "extractSource pl a = Inr src"
    by (auto simp: article_entry_def split: sum.splits)
  from extractSource_string[OF s assms(2)] have "is_string src" .
  with assms(1) s show ?thesis
    by (auto simp: article_entry_def conforms_def is_string_def Let_def
        split: sum.splits jv.splits if_splits)
qed

lemma item_stored_conforms:
  assumes "item_stored pl item = Some e"
  shows "conforms e"
proof -
  from item_entry_changes[of pl item] obtain chs where
    chs: "changes (item_entry pl item) = Some chs"
    and st: "\<forall>ch\<in>set chs. \<exists>f t. ch_from ch = JStr f \<and> ch_to ch = JStr t"
    by blast
  have src: "is_string (source (item_entry pl item))"
    by (simp add: item_entry_def Let_def is_string_def)
  from assms chs have "e = (item_entry pl item)\<lparr>changes := Some (filter valid_change chs)\<rparr>"
    by (auto simp: item_stored_def Let_def the_changes_def split: if_splits)
  with src st show ?thesis
    by (auto simp: conforms_def list_all_iff is_string_def)
qed

lemma push_conforms:
  "list_all conforms (processedEntries this) \<Longrightarrow> list_all conforms es \<Longrightarrow>
   list_all conforms (processedEntries (push this es))"
  by (auto simp: push_def list_all_iff dest: in_set_takeD)

lemma map_filter_all:
  "(\<And>x y. x \<in> set xs \<Longrightarrow> f x = Some y \<Longrightarrow> P y) \<Longrightarrow> list_all P (List.map_filter f xs)"
  by (auto simp: List.map_filter_def list_all_iff)

lemma sample_conforms: "list_all conforms getSampleData" "list_all conforms getSampleData_rss"
  by (simp_all add: getSampleData_def getSampleData_rss_def sample_entry_def conforms_def is_string_def)

lemma process_article_conforms:
  assumes "process_article pl this a = Inr this1" "length (processedEntries this) < maxEntries this"
    "list_all conforms (processedEntries this)" "string_fields a"
  shows "list_all conforms (processedEntries this1)"
proof (cases "article_entry pl a")
  case None
  with process_article_Inr[OF assms(1,2)] assms(3) show ?thesis by simp
next
  case (Some e)
  from article_entry_conforms[OF Some assms(4)] have "conforms e" .
  with process_article_Inr[OF assms(1,2)] Some assms(3) show ?thesis by simp
qed

lemma parse_articles_conforms:
  "parse_articles pl this xs = (this', r) \<Longrightarrow> list_all conforms (processedEntries this) \<Longrightarrow>
   list_all string_fields xs \<Longrightarrow> list_all conforms (processedEntries this')"
proof (induction xs arbitrary: this)
  case Nil
  then show ?case by simp
next
  case (Cons a xs)
  show ?case
  proof (cases "length (processedEntries this) < maxEntries this")
    case False
    with Cons.prems show ?thesis by simp
  next
    case True
    show ?thesis
    proof (cases "process_article pl this a")
      case (Inl e)
      with True Cons.prems show ?thesis by simp
    next
      case (Inr this1)
      with True Cons.prems have p: "parse_articles pl this1 xs = (this', r)" by simp
      from Cons.prems(3) have sf: "string_fields a" "list_all string_fields xs" by simp_all
      from Cons.IH[OF p process_article_conforms[OF Inr True Cons.prems(2) sf(1)] sf(2)]
      show ?thesis .
    qed
  qed
qed

lemma parseGDGData_snd_conforms:
  assumes "list_all conforms (processedEntries this)" "list_all string_fields (articles_of data)"
  shows "list_all conforms (processedEntries (snd (parseGDGData pl this data)))"
proof (cases "truthy data \<and> (\<exists>xs. get_prop data ''articles'' = Inr (JArr xs))")
  case False
  with assms(1) show ?thesis
    by (auto simp: parseGDGData_def split: sum.splits jv.splits)
next
  case True
  then obtain xs where xs: "get_prop data ''articles'' = Inr (JArr xs)" by blast
  with assms(2) have sf: "list_all string_fields xs" by (simp add: articles_of_def)
  obtain this' r where p: "parse_articles pl this xs = (this', r)"
    by (cases "parse_articles pl this xs")
  from parse_articles_conforms[OF p assms(1) sf] have "list_all conforms (processedEntries this')" .
  with True xs p show ?thesis by (cases r) (simp_all add: parseGDGData_def)
qed

lemma parseGDGData_rss_snd_conforms:
  assumes "list_all conforms (processedEntries this)"
  shows "list_all conforms (processedEntries (snd (parseGDGData_rss pl this raw)))"
proof -
  have "list_all conforms (List.map_filter (item_stored pl) items)" for items
    by (rule map_filter_all) (rule item_stored_conforms)
  with assms have "list_all conforms (processedEntries (push this (List.map_filter (item_stored pl) items)))"
    for items
    by (simp add: push_conforms)
  with assms show ?thesis
    by (simp add: parseGDGData_rss_def parse_items_eq split: sum.splits)
qed

lemma parseGDGData_fst_conforms:
  assumes a: "list_all conforms (processedEntries this)" "list_all string_fields (articles_of data)"
  shows "list_all conforms (fst (parseGDGData pl this data))"
proof (cases "\<exists>xs. get_prop data ''articles'' = Inr (JArr xs)")
  case False
  then show ?thesis
    by (auto simp: parseGDGData_fst sample_conforms split: sum.splits jv.splits)
next
  case True
  then obtain xs where xs: "get_prop data ''articles'' = Inr (JArr xs)" by blast
  with a have sf: "list_all string_fields xs" by (simp add: articles_of_def)
  have "list_all conforms (List.map_filter (article_entry pl) xs)"
  proof (rule map_filter_all)
    fix x y assume "x \<in> set xs" "article_entry pl x = Some y"
    with sf show "conforms y" by (auto simp: list_all_iff intro: article_entry_conforms)
  qed
  with a have "list_all conforms (processedEntries (push this (List.map_filter (article_entry pl) xs)))"
    by (simp add: push_conforms)
  with xs show ?thesis
    by (simp add: parseGDGData_fst sample_conforms split: option.splits)
qed

lemma parseGDGData_rss_fst_conforms:
  assumes a: "list_all conforms (processedEntries this)"
  shows "list_all conforms (fst (parseGDGData_rss pl this raw))"
proof -
  have "list_all conforms (List.map_filter (item_stored pl) items)" for items
    by (rule map_filter_all) (rule item_stored_conforms)
  with a have "list_all conforms (processedEntries (push this (List.map_filter (item_stored pl) items)))"
    for items
    by (simp add: push_conforms)
  then show ?thesis
    by (simp add: parseGDGData_rss_fst sample_conforms split: sum.splits)
qed

text \<open>
  C5 (amended). The normalized shape (a string source, and changes with string from and
  to) is an invariant of the entries the parser holds: it holds of a new parser; the feed
  parser preserves it; and the article parser preserves it when, in each article, the
  source, url and domain fields are strings or falsy. Whenever it holds before a call and,
  for the article parser, the articles have such fields, every entry returned has the
  shape.
\<close>

theorem parseGDGData_entries_conform:
  "list_all conforms (processedEntries new_GDGParser) \<and>
   (list_all conforms (processedEntries this) \<and> list_all string_fields (articles_of data) \<longrightarrow>
      list_all conforms (fst (parseGDGData pl this data)) \<and>
      list_all conforms (processedEntries (snd (parseGDGData pl this data)))) \<and>
   (list_all conforms (processedEntries this) \<longrightarrow>
      list_all conforms (fst (parseGDGData_rss pl this raw)) \<and>
      list_all conforms (processedEntries (snd (parseGDGData_rss pl this raw))))"
  using parseGDGData_fst_conforms[of this data pl] parseGDGData_snd_conforms[of this data pl]
    parseGDGData_rss_fst_conforms[of this pl raw] parseGDGData_rss_snd_conforms[of this pl raw]
  by (simp add: new_GDGParser_def)

lemma example_data_fields: "list_all string_fields (articles_of example_data)"
  by (simp add: articles_of_def example_data_def example_article_def string_fields_def
      own_prop_def string_or_falsy_def str_def)

theorem parseGDGData_entries_conform_witness:
  "list_all conforms (processedEntries new_GDGParser) \<and>
   list_all string_fields (articles_of example_data) \<and>
   list_all conforms (fst (parseGDGData example_platform new_GDGParser example_data)) \<and>
   list_all conforms (processedEntries (snd (parseGDGData example_platform new_GDGParser example_data))) \<and>
   list_all conforms (fst (parseGDGData_rss example_platform new_GDGParser JNull)) \<and>
   list_all conforms (processedEntries (snd (parseGDGData_rss example_platform new_GDGParser JNull)))"
  using parseGDGData_entries_conform [of new_GDGParser example_data example_platform JNull]
    example_data_fields
  by simp

lemma untyped_article_entry:
  "article_entry example_platform untyped_article =
     Some \<lparr>entry_id = JUndefined, source = JObj [(str ''name'', JStr (str ''CNN''))],
           changes = Some [\<lparr>ch_from = JStr (str ''Police probe 12 deaths''),
                            ch_to = JStr (str ''[REDACTED] [REDACTED] [REDACTED] [REDACTED]''),
                            ch_type = JStr (str ''text'')\<rparr>]\<rparr>"
  by code_simp

lemma untyped_no_exception: "snd (parse_articles example_platform new_GDGParser [untyped_article]) = None"
  by code_simp

lemma parseGDGData_None:
  assumes "truthy data" "get_prop data ''articles'' = Inr (JArr xs)"
    "snd (parse_articles pl this xs) = None"
  shows "parseGDGData pl this data =
     (processedEntries (push this (List.map_filter (article_entry pl) xs)),
      push this (List.map_filter (article_entry pl) xs))"
proof -
  obtain this' where p: "parse_articles pl this xs = (this', None)"
    using assms(3) by (cases "parse_articles pl this xs") auto
  from parse_articles_None[OF p] p assms(1,2) show ?thesis by (simp add: parseGDGData_def)
qed

lemma stored_entries:
  "article_entry example_platform untyped_article = Some untyped_stored"
  "article_entry example_platform example_article = Some article_stored"
  using untyped_article_entry example_article_entry
  by (simp_all add: untyped_stored_def article_stored_def)

lemma data_articles:
  "truthy untyped_data" "get_prop untyped_data ''articles'' = Inr (JArr [untyped_article])"
  "truthy example_data" "get_prop example_data ''articles'' = Inr (JArr [example_article])"
  by (simp_all add: untyped_data_def example_data_def own_prop_def)

lemma untyped_call:
  "parseGDGData example_platform new_GDGParser untyped_data =
     ([untyped_stored], new_GDGParser\<lparr>processedEntries := [untyped_stored]\<rparr>)"
  using parseGDGData_None[OF data_articles(1,2), of example_platform new_GDGParser] untyped_no_exception
  by (simp add: stored_entries push_def new_GDGParser_def)

lemma typed_no_exception:
  "snd (parse_articles example_platform (new_GDGParser\<lparr>processedEntries := [untyped_stored]\<rparr>)
     [example_article]) = None"
  by code_simp

lemma typed_call:
  "parseGDGData example_platform (new_GDGParser\<lparr>processedEntries := [untyped_stored]\<rparr>) example_data =
     ([untyped_stored, article_stored],
      new_GDGParser\<lparr>processedEntries := [untyped_stored, article_stored]\<rparr>)"
  using parseGDGData_None[OF data_articles(3,4), of example_platform
      "new_GDGParser\<lparr>processedEntries := [untyped_stored]\<rparr>"] typed_no_exception
  by (simp add: stored_entries push_def new_GDGParser_def)

lemma untyped_stored_shape: "\<not> conforms untyped_stored"
  by (simp add: untyped_stored_def conforms_def is_string_def)

text \<open>
  C5 as stated fails for the article parser: an article whose source is an object gives an
  entry, in a result that is not the sample data, whose source is that object; and the
  entry stays in the parser, so the next call, on an article with string fields, returns it
  again.
\<close>

theorem parseGDGData_source_counterexample:
  "fst (parseGDGData example_platform new_GDGParser untyped_data) = [untyped_stored] \<and>
   fst (parseGDGData example_platform new_GDGParser untyped_data) \<noteq> getSampleData \<and>
   \<not> list_all conforms (fst (parseGDGData example_platform new_GDGParser untyped_data)) \<and>
   list_all string_fields (articles_of example_data) \<and>
   fst (parseGDGData example_platform
          (snd (parseGDGData example_platform new_GDGParser untyped_data)) example_data) =
     [untyped_stored, article_stored] \<and>
   fst (parseGDGData example_platform
          (snd (parseGDGData example_platform new_GDGParser untyped_data)) example_data) \<noteq>
     getSampleData \<and>
   \<not> list_all conforms
       (fst (parseGDGData example_platform
               (snd (parseGDGData example_platform new_GDGParser untyped_data)) example_data))"
proof -
  have "xs \<noteq> getSampleData" if "\<not> list_all conforms xs" for xs
    using that sample_conforms(1) by auto
  then have "[untyped_stored] \<noteq> getSampleData" "[untyped_stored, article_stored] \<noteq> getSampleData"
    using untyped_stored_shape by simp_all
  then show ?thesis
    using example_data_fields by (simp add: untyped_call typed_call untyped_stored_shape)
qed

section \<open>The responses of the route\<close>

lemma error_key: "own_prop ((str ''error'', v) # kvs) ''error'' = v"
  by (simp add: own_prop_def)

text \<open>
  C7. The route hands the parsed data to \<open>res.json\<close> with status 200 when the file is
  read and parsed, and the handler returns status 200 with the data as its JSON body when
  the feed is fetched with an ok status, read, inflated and parsed; in every other case
  the route sets status 500 and hands \<open>res.json\<close> an object with a string error field,
  and the handler returns status 500 with such an object as its JSON body. Both always
  answer: no exception leaves them.
\<close>

theorem gdelt_route_json_response:
  "(case file_data readFile json_parse of
      Some parsedData \<Rightarrow> data_sent (gdelt_route readFile json_parse) parsedData
    | None \<Rightarrow> error_sent (gdelt_route readFile json_parse)) \<and>
   (case fetched_data fetched inflate parse of
      Some data \<Rightarrow> data_response (handler fetched inflate parse) data
    | None \<Rightarrow> error_response (handler fetched inflate parse))"
  by (simp add: gdelt_route_def handler_def file_data_def fetched_data_def error_response_def
      data_response_def error_sent_def data_sent_def error_body_def error_key is_string_def
      split: sum.splits option.splits)

theorem gdelt_route_json_response_witness:
  "gdelt_route (Inr (str ''[]'')) (\<lambda>s. Inr (JArr [])) = \<lparr>res_status = 200, res_json = JArr []\<rparr> \<and>
   error_sent (gdelt_route (Inl (str ''ENOENT'')) (\<lambda>s. Inr (JArr []))) \<and>
   error_response
     (handler (Inr \<lparr>ok = False, status = 404, statusText = str ''Not Found'', arrayBuffer = Inr []\<rparr>)
        (\<lambda>b. Some (str ''null'')) (\<lambda>s. Some JNull)) \<and>
   data_response
     (handler (Inr \<lparr>ok = True, status = 200, statusText = str ''OK'', arrayBuffer = Inr []\<rparr>)
        (\<lambda>b. Some (str ''null'')) (\<lambda>s. Some JNull)) JNull"
  using gdelt_route_json_response [of "Inr (str ''[]'')" "\<lambda>s. Inr (JArr [])"
      "Inr \<lparr>ok = False, status = 404, statusText = str ''Not Found'', arrayBuffer = Inr []\<rparr>"
      "\<lambda>b. Some (str ''null'')" "\<lambda>s. Some JNull"]
    gdelt_route_json_response [of "Inl (str ''ENOENT'')" "\<lambda>s. Inr (JArr [])"
      "Inr \<lparr>ok = True, status = 200, statusText = str ''OK'', arrayBuffer = Inr []\<rparr>"
      "\<lambda>b. Some (str ''null'')" "\<lambda>s. Some JNull"]
  by (simp add: file_data_def fetched_data_def data_sent_def gdelt_route_def)

end
